theory Spec2Isabelle
  imports Main "HOL-Library.Word"
begin

section \<open>The nginx input plugin (plugins/inputs/nginx/nginx.go)\<close>

text \<open>
  A shallow embedding of the plugin. Go strings are byte sequences, so a string is a
  \<open>char list\<close>. A Go \<open>error\<close> is a value of the datatype \<open>error\<close>; a function
  returning \<open>(v, err)\<close> returns a sum, \<open>Inl\<close> for the error. A run-time panic is kept
  apart from a returned error: it unwinds the goroutine and is never an \<open>error\<close> value.
\<close>

subsection \<open>Errors, panics and outcomes\<close>

datatype num_error = ErrSyntax | ErrRange

datatype error =
    EOF                          \<comment> \<open>io.EOF\<close>
  | NumError string num_error    \<comment> \<open>strconv.NumError of ParseUint, with the offending token\<close>
  | Errorf string                \<comment> \<open>fmt.Errorf, with the formatted message\<close>
  | External string              \<comment> \<open>an error of a collaborator, with its message\<close>

datatype panic =
    IndexOutOfRange nat nat      \<comment> \<open>index, length\<close>
  | NilDereference

text \<open>What a call of a function with result type \<open>error\<close> does: it returns nil
  (\<open>Returns None\<close>), returns an error, or panics.\<close>

datatype outcome = Returns "error option" | Panics panic

subsection \<open>The configuration and the client\<close>

text \<open>\<open>time.Duration\<close> is an int64 count of nanoseconds; comparison is signed.\<close>

type_synonym duration = "64 word"

definition Second :: duration where
  "Second = 1000000000"

text \<open>\<open>http.Client\<close>, as far as the plugin sets it: the TLS configuration of its
  transport and the timeout.\<close>

record 'tls http_client =
  TLSClientConfig :: 'tls
  Timeout :: duration

record 'tls Nginx =
  Urls :: "string list"
  SSLCA :: string
  SSLCert :: string
  SSLKey :: string
  InsecureSkipVerify :: bool
  client :: "'tls http_client option"
  ResponseTimeout :: duration

text \<open>\<open>internal.GetTLSConfig\<close> is a collaborator outside this file: it is a parameter
  \<open>load\<close>, called with the certificate, key and CA paths and the insecure flag.\<close>

type_synonym 'tls tls_loader = "string \<Rightarrow> string \<Rightarrow> string \<Rightarrow> bool \<Rightarrow> error + 'tls"

text \<open>\<open>createHttpClient\<close> writes the substituted timeout back into the receiver, so
  the model returns the client together with the updated collector.\<close>

definition createHttpClient ::
  "'tls tls_loader \<Rightarrow> 'tls Nginx \<Rightarrow> error + ('tls http_client \<times> 'tls Nginx)" where
  "createHttpClient load n =
     (case load (SSLCert n) (SSLKey n) (SSLCA n) (InsecureSkipVerify n) of
        Inl err \<Rightarrow> Inl err
      | Inr tlsCfg \<Rightarrow>
          (let n' = (if ResponseTimeout n <s Second
                     then n\<lparr>ResponseTimeout := Second * 5\<rparr> else n)
           in Inr (\<lparr>TLSClientConfig = tlsCfg, Timeout = ResponseTimeout n'\<rparr>, n')))"

subsection \<open>The Go library functions the parser calls\<close>

text \<open>
  The functions of \<open>bufio\<close>, \<open>strings\<close>, \<open>strconv\<close> and \<open>net\<close> below belong to Go's
  standard library, not to this repository; they are written out after the library's
  own sources so that the parser can be evaluated.
\<close>

paragraph \<open>bufio.Reader.ReadString\<close>

text \<open>
  The reader is the sequence of bytes not yet consumed; the response body is a finite
  byte sequence, so the only read error is \<open>io.EOF\<close>. \<open>ReadString delim\<close> returns the
  bytes up to and including the first \<open>delim\<close>; when the input ends before a \<open>delim\<close>
  it consumes everything and returns \<open>io.EOF\<close> (the callers drop the partial data).
\<close>

fun ReadString :: "char \<Rightarrow> string \<Rightarrow> (error + string) \<times> string" where
  "ReadString delim [] = (Inl EOF, [])"
| "ReadString delim (c # cs) =
     (if c = delim then (Inr [c], cs)
      else (case ReadString delim cs of
              (Inl err, r) \<Rightarrow> (Inl err, r)
            | (Inr line, r) \<Rightarrow> (Inr (c # line), r)))"

paragraph \<open>unicode.IsSpace on UTF-8 bytes\<close>

definition asciiSpace :: "char \<Rightarrow> bool" where
  "asciiSpace c \<longleftrightarrow>
     c = CHR 0x09 \<or> c = CHR 0x0A \<or> c = CHR 0x0B \<or> c = CHR 0x0C \<or> c = CHR 0x0D \<or> c = CHR 0x20"

text \<open>
  \<open>space_width s\<close> is the number of bytes of the white-space rune that \<open>s\<close> starts
  with, and 0 when \<open>s\<close> starts with no such rune. The runes of \<open>unicode.IsSpace\<close> are
  U+0009..U+000D, U+0020, U+0085, U+00A0, U+1680, U+2000..U+200A, U+2028, U+2029,
  U+202F, U+205F and U+3000, here in their UTF-8 encodings. A byte that starts no
  valid encoding decodes to U+FFFD of width 1, which is not a space.
\<close>

definition space2 :: "char \<Rightarrow> char \<Rightarrow> bool" where
  "space2 c d \<longleftrightarrow> c = CHR 0xC2 \<and> (d = CHR 0x85 \<or> d = CHR 0xA0)"

definition space3 :: "char \<Rightarrow> char \<Rightarrow> char \<Rightarrow> bool" where
  "space3 c d e \<longleftrightarrow>
     (c = CHR 0xE1 \<and> d = CHR 0x9A \<and> e = CHR 0x80) \<or>
     (c = CHR 0xE2 \<and> d = CHR 0x80 \<and>
        ((0x80 \<le> (of_char e :: nat) \<and> (of_char e :: nat) \<le> 0x8A) \<or>
         e = CHR 0xA8 \<or> e = CHR 0xA9 \<or> e = CHR 0xAF)) \<or>
     (c = CHR 0xE2 \<and> d = CHR 0x81 \<and> e = CHR 0x9F) \<or>
     (c = CHR 0xE3 \<and> d = CHR 0x80 \<and> e = CHR 0x80)"

definition space_width :: "string \<Rightarrow> nat" where
  "space_width s =
     (case s of
        [] \<Rightarrow> 0
      | c # cs \<Rightarrow>
          if asciiSpace c then 1
          else (case cs of
                  [] \<Rightarrow> 0
                | d # ds \<Rightarrow>
                    if space2 c d then 2
                    else (case ds of
                            [] \<Rightarrow> 0
                          | e # _ \<Rightarrow> if space3 c d e then 3 else 0)))"

paragraph \<open>strings.Fields\<close>

text \<open>
  \<open>Fields\<close> splits around each run of white-space runes and returns the non-empty
  pieces (on ASCII input the library takes a fast path over the same six bytes).
  \<open>fields_from skip cur s\<close> scans \<open>s\<close> with the piece \<open>cur\<close> open; \<open>skip\<close> counts the
  remaining bytes of a multi-byte space rune.
\<close>

fun fields_from :: "nat \<Rightarrow> string \<Rightarrow> string \<Rightarrow> string list" where
  "fields_from skip cur [] = (if cur = [] then [] else [cur])"
| "fields_from (Suc skip) cur (c # cs) = fields_from skip cur cs"
| "fields_from 0 cur (c # cs) =
     (if space_width (c # cs) = 0 then fields_from 0 (cur @ [c]) cs
      else (if cur = [] then [] else [cur]) @ fields_from (space_width (c # cs) - 1) [] cs)"

definition Fields :: "string \<Rightarrow> string list" where
  "Fields s = fields_from 0 [] s"

paragraph \<open>strings.TrimSpace\<close>

lemma space_width_Nil: "space_width [] = 0"
  by (simp add: space_width_def)

function trim_left :: "string \<Rightarrow> string" where
  "trim_left s = (if space_width s = 0 then s else trim_left (drop (space_width s) s))"
  by pat_completeness auto
termination
proof (relation "measure length")
  fix s :: string
  assume "space_width s \<noteq> 0"
  then have "s \<noteq> []" by (auto simp: space_width_Nil)
  with \<open>space_width s \<noteq> 0\<close> show "(drop (space_width s) s, s) \<in> measure length" by simp
qed simp

declare trim_left.simps [simp del]

text \<open>The width of the white-space rune that \<open>s\<close> ends with, 0 when there is none.\<close>

definition last_space_width :: "string \<Rightarrow> nat" where
  "last_space_width s =
     (if 1 \<le> length s \<and> space_width (drop (length s - 1) s) = 1 then 1
      else if 2 \<le> length s \<and> space_width (drop (length s - 2) s) = 2 then 2
      else if 3 \<le> length s \<and> space_width (drop (length s - 3) s) = 3 then 3
      else 0)"

function trim_right :: "string \<Rightarrow> string" where
  "trim_right s =
     (if last_space_width s = 0 then s
      else trim_right (take (length s - last_space_width s) s))"
  by pat_completeness auto
termination
proof (relation "measure length")
  fix s :: string
  assume "last_space_width s \<noteq> 0"
  then have "0 < last_space_width s \<and> last_space_width s \<le> length s"
    unfolding last_space_width_def by (simp split: if_splits)
  then have "length s - last_space_width s < length s" by arith
  then show "(take (length s - last_space_width s) s, s) \<in> measure length" by simp
qed simp

declare trim_right.simps [simp del]

definition TrimSpace :: "string \<Rightarrow> string" where
  "TrimSpace s = trim_right (trim_left s)"

paragraph \<open>strconv.ParseUint(s, 10, 64)\<close>

definition maxUint64 :: nat where
  "maxUint64 = 2 ^ 64 - 1"

definition cutoff :: nat where
  "cutoff = maxUint64 div 10 + 1"

text \<open>
  The digit loop, on the uint64 accumulator \<open>n\<close> (a natural number below \<open>2 ^ 64\<close>, the
  wrap-around of \<open>n + d\<close> written out). A byte that is no decimal digit is a syntax
  error; a value beyond \<open>maxUint64\<close> is a range error, reported where the loop meets it.
\<close>

fun parse_digits :: "nat \<Rightarrow> string \<Rightarrow> num_error + nat" where
  "parse_digits n [] = Inr n"
| "parse_digits n (c # cs) =
     (if \<not> (48 \<le> (of_char c :: nat) \<and> (of_char c :: nat) \<le> 57) then Inl ErrSyntax
      else if n \<ge> cutoff then Inl ErrRange
      else (let n' = n * 10;
                n1 = (n' + (of_char c - 48)) mod 2 ^ 64
            in if n1 < n' \<or> n1 > maxUint64 then Inl ErrRange
               else parse_digits n1 cs))"

definition ParseUint :: "string \<Rightarrow> error + 64 word" where
  "ParseUint s =
     (if s = [] then Inl (NumError s ErrSyntax)
      else (case parse_digits 0 s of
              Inl e \<Rightarrow> Inl (NumError s e)
            | Inr n \<Rightarrow> Inr (of_nat n)))"

paragraph \<open>Indexing a slice\<close>

text \<open>\<open>data[i]\<close> panics when \<open>i\<close> is not below the length.\<close>

definition index :: "'a list \<Rightarrow> nat \<Rightarrow> panic + 'a" where
  "index xs i = (if i < length xs then Inr (xs ! i) else Inl (IndexOutOfRange i (length xs)))"

paragraph \<open>net.SplitHostPort\<close>

definition last_index :: "char \<Rightarrow> string \<Rightarrow> nat option" where
  "last_index c s =
     (if c \<in> set s then Some (length s - 1 - length (takeWhile (\<lambda>x. x \<noteq> c) (rev s))) else None)"

definition first_index :: "char \<Rightarrow> string \<Rightarrow> nat option" where
  "first_index c s = (if c \<in> set s then Some (length (takeWhile (\<lambda>x. x \<noteq> c) s)) else None)"

text \<open>The reasons of a \<open>net.AddrError\<close> of SplitHostPort.\<close>

datatype addr_error =
    MissingPort          \<comment> \<open>missing port in address\<close>
  | TooManyColons        \<comment> \<open>too many colons in address\<close>
  | MissingBracket       \<comment> \<open>missing ']' in address\<close>
  | UnexpectedOpen       \<comment> \<open>unexpected '[' in address\<close>
  | UnexpectedClose      \<comment> \<open>unexpected ']' in address\<close>

text \<open>
  The result is the host and the port, or the reason of the error. The port starts
  after the last colon; a host in brackets must end just before that colon; a host
  without brackets holds no colon. \<open>j\<close> and \<open>k\<close> are the positions from which no
  further bracket may appear. The index \<open>hostport ! 0\<close> is read only where a colon was
  found, \<open>hostport ! (e + 1)\<close> only where \<open>e + 1\<close> is below the length.
\<close>

definition SplitHostPort :: "string \<Rightarrow> addr_error + (string \<times> string)" where
  "SplitHostPort hostport =
     (case last_index (CHR '':'') hostport of
        None \<Rightarrow> Inl MissingPort
      | Some i \<Rightarrow>
          (let finish = (\<lambda>host j k.
                 if CHR ''['' \<in> set (drop j hostport) then Inl UnexpectedOpen
                 else if CHR '']'' \<in> set (drop k hostport) then Inl UnexpectedClose
                 else Inr (host, drop (i + 1) hostport))
           in if hostport ! 0 = CHR ''['' then
                (case first_index (CHR '']'') hostport of
                   None \<Rightarrow> Inl MissingBracket
                 | Some e \<Rightarrow>
                     if e + 1 = length hostport then Inl MissingPort
                     else if e + 1 = i then finish (take (e - 1) (drop 1 hostport)) 1 (e + 1)
                     else if hostport ! (e + 1) = CHR '':'' then Inl TooManyColons
                     else Inl MissingPort)
              else (let host = take i hostport
                    in if CHR '':'' \<in> set host then Inl TooManyColons
                       else finish host 0 0)))"

subsection \<open>The accumulator\<close>

type_synonym fields = "string \<rightharpoonup> 64 word"
type_synonym tags = "string \<rightharpoonup> string"

text \<open>
  Modelled from the spec: the accumulator (\<open>telegraf.Accumulator\<close>) is an interface whose
  implementation is not among the sources. Following the spec it records a measurement
  name with a field set and a tag set, and collects errors without halting the cycle;
  a nil error is not recorded. The order of the entries stands for an order of arrival.
\<close>

record accumulator =
  metrics :: "(string \<times> fields \<times> tags) list"
  errors :: "error list"

definition AddFields :: "string \<Rightarrow> fields \<Rightarrow> tags \<Rightarrow> accumulator \<Rightarrow> accumulator" where
  "AddFields name fs ts acc = acc\<lparr>metrics := metrics acc @ [(name, fs, ts)]\<rparr>"

definition AddError :: "error option \<Rightarrow> accumulator \<Rightarrow> accumulator" where
  "AddError err acc = (case err of None \<Rightarrow> acc | Some e \<Rightarrow> acc\<lparr>errors := errors acc @ [e]\<rparr>)"

subsection \<open>The plain-text parser\<close>

text \<open>\<open>if err != nil { return err }\<close>: an error ends the call with the accumulator as
  it is; otherwise the call goes on with the value. A failed index panics.\<close>

definition orReturn ::
  "error + 'a \<Rightarrow> accumulator \<Rightarrow> ('a \<Rightarrow> outcome \<times> accumulator) \<Rightarrow> outcome \<times> accumulator" where
  "orReturn r acc k = (case r of Inl err \<Rightarrow> (Returns (Some err), acc) | Inr v \<Rightarrow> k v)"

definition orPanic ::
  "panic + 'a \<Rightarrow> accumulator \<Rightarrow> ('a \<Rightarrow> outcome \<times> accumulator) \<Rightarrow> outcome \<times> accumulator" where
  "orPanic r acc k = (case r of Inl p \<Rightarrow> (Panics p, acc) | Inr v \<Rightarrow> k v)"

definition gatherStubStatusUrl :: "string \<Rightarrow> tags \<Rightarrow> accumulator \<Rightarrow> outcome \<times> accumulator" where
  "gatherStubStatusUrl r tags acc =
     (case ReadString (CHR '':'') r of (res, r1) \<Rightarrow> orReturn res acc (\<lambda>_.
      case ReadString (CHR 0x0A) r1 of (res, r2) \<Rightarrow> orReturn res acc (\<lambda>line.
      orReturn (ParseUint (TrimSpace line)) acc (\<lambda>active.
      case ReadString (CHR 0x0A) r2 of (res, r3) \<Rightarrow> orReturn res acc (\<lambda>_.
      case ReadString (CHR 0x0A) r3 of (res, r4) \<Rightarrow> orReturn res acc (\<lambda>line.
      let data = Fields line in
      orPanic (index data 0) acc (\<lambda>d0. orReturn (ParseUint d0) acc (\<lambda>accepts.
      orPanic (index data 1) acc (\<lambda>d1. orReturn (ParseUint d1) acc (\<lambda>handled.
      orPanic (index data 2) acc (\<lambda>d2. orReturn (ParseUint d2) acc (\<lambda>requests.
      case ReadString (CHR 0x0A) r4 of (res, r5) \<Rightarrow> orReturn res acc (\<lambda>line.
      let data = Fields line in
      orPanic (index data 1) acc (\<lambda>d1. orReturn (ParseUint d1) acc (\<lambda>reading.
      orPanic (index data 3) acc (\<lambda>d3. orReturn (ParseUint d3) acc (\<lambda>writing.
      orPanic (index data 5) acc (\<lambda>d5. orReturn (ParseUint d5) acc (\<lambda>waiting.
      let fields = map_of
            [(''active'', active), (''accepts'', accepts), (''handled'', handled),
             (''requests'', requests), (''reading'', reading), (''writing'', writing),
             (''waiting'', waiting)]
      in (Returns None, AddFields ''nginx'' fields tags acc))))))))))))))))))))"

subsection \<open>The tag extractor\<close>

text \<open>\<open>url.URL\<close>, as far as the plugin reads it: the scheme, the authority and the
  text that its \<open>String\<close> method returns.\<close>

record url =
  Scheme :: string
  Host :: string
  url_String :: string

definition getTags :: "url \<Rightarrow> tags" where
  "getTags addr =
     (let h = Host addr;
          (host, port) =
            (case SplitHostPort h of
               Inr (host, port) \<Rightarrow> (host, port)
             | Inl err \<Rightarrow>
                 (Host addr,
                  if Scheme addr = ''http'' then ''80''
                  else if Scheme addr = ''https'' then ''443''
                  else []))
      in map_of [(''server'', host), (''port'', port)])"

subsection \<open>The response dispatcher\<close>

text \<open>\<open>http.Response\<close>, as far as the plugin reads it; \<open>ContentType\<close> is what
  \<open>Header.Get("Content-Type")\<close> returns, empty when the header is absent.\<close>

record response =
  StatusCode :: int
  Status :: string
  ContentType :: string
  Body :: string

definition StatusOK :: int where
  "StatusOK = 200"

text \<open>
  The collaborators of a collection cycle: the TLS loader, \<open>url.Parse\<close>, the client's
  \<open>Get\<close> (an error is given by its message) and \<open>gatherStatusUrl\<close>, the decoder of
  the JSON status format, which this file calls and does not define.
\<close>

record 'tls env =
  getTLS :: "'tls tls_loader"
  Parse :: "string \<Rightarrow> string + url"
  Get :: "'tls http_client \<Rightarrow> string \<Rightarrow> string + response"
  gatherStatusUrl :: "string \<Rightarrow> tags \<Rightarrow> accumulator \<Rightarrow> outcome \<times> accumulator"

text \<open>
  \<open>addr\<close> is a pointer: \<open>None\<close> is nil, and \<open>addr.String()\<close> on nil dereferences it,
  as \<open>n.client.Get\<close> does on a nil client. \<open>strings.Split(s, ";")[0]\<close> is the part
  of \<open>s\<close> before its first semicolon. The deferred \<open>resp.Body.Close()\<close> releases the
  body and changes nothing that the model holds.
\<close>

definition gatherUrl ::
  "'tls env \<Rightarrow> 'tls Nginx \<Rightarrow> url option \<Rightarrow> accumulator \<Rightarrow> outcome \<times> accumulator" where
  "gatherUrl env n addr acc =
     (case addr of
        None \<Rightarrow> (Panics NilDereference, acc)
      | Some a \<Rightarrow>
     (case client n of
        None \<Rightarrow> (Panics NilDereference, acc)
      | Some c \<Rightarrow>
     (case Get env c (url_String a) of
        Inl err \<Rightarrow>
          (Returns (Some (Errorf (''error making HTTP request to '' @ url_String a @ '': '' @ err))), acc)
      | Inr resp \<Rightarrow>
          if StatusCode resp \<noteq> StatusOK then
            (Returns (Some (Errorf (url_String a @ '' returned HTTP status '' @ Status resp))), acc)
          else
            (let contentType = takeWhile (\<lambda>c. c \<noteq> CHR '';'') (ContentType resp)
             in if contentType = ''text/plain'' then
                  gatherStubStatusUrl (Body resp) (getTags a) acc
                else if contentType = ''application/json'' then
                  gatherStatusUrl env (Body resp) (getTags a) acc
                else
                  (Returns (Some (Errorf (url_String a @ '' returned unexpected content type '' @
                     contentType))), acc)))))"

subsection \<open>The concurrent poller\<close>

text \<open>
  \<open>Gather\<close> first builds the client when the collector has none; an error of the
  construction is returned at once. After that the loop and the goroutines that it
  starts run concurrently, so what follows is a step relation on the states of a
  collection cycle. A state holds the addresses that the loop has not reached, the
  arguments of the goroutines started and not finished, the accumulator, the log of
  the argument of every goroutine started, the first panic once a goroutine has
  panicked, and whether \<open>Gather\<close> has returned.
\<close>

record cycle =
  pending :: "string list"
  running :: "url option list"
  accum :: accumulator
  launched :: "url option list"
  panicked :: "panic option"
  returned :: bool

definition start :: "string list \<Rightarrow> accumulator \<Rightarrow> cycle" where
  "start us acc =
     \<lparr>pending = us, running = [], accum = acc, launched = [], panicked = None,
      returned = False\<rparr>"

text \<open>The body of the loop before its \<open>go\<close> statement: the address is parsed and a
  parse error is recorded; \<open>url.Parse\<close> returns a nil URL with an error.\<close>

definition parse_address ::
  "'tls env \<Rightarrow> string \<Rightarrow> accumulator \<Rightarrow> url option \<times> accumulator" where
  "parse_address env u acc =
     (case Parse env u of
        Inl err \<Rightarrow>
          (None, AddError (Some (Errorf (''Unable to parse address '' @ [CHR 0x27] @ u @
             [CHR 0x27] @ '': '' @ err))) acc)
      | Inr a \<Rightarrow> (Some a, acc))"

text \<open>
  The steps of a cycle.
  \<^item> \<open>launch\<close>: an iteration of the loop. It parses the next address and starts a
    goroutine with the result, after a parse error too: nothing leaves the iteration
    between \<open>acc.AddError\<close> and the \<open>go\<close> statement.
  \<^item> \<open>finish\<close>: a goroutine runs \<open>acc.AddError(n.gatherUrl(addr, acc))\<close> and its deferred
    \<open>wg.Done\<close>. A goroutine touches the accumulator at its end only (the parser's last
    statement, or the \<open>AddError\<close> that follows the return of \<open>gatherUrl\<close>), so its run is one
    step, taken at any moment after its start.
  \<^item> \<open>panic\<close>: \<open>gatherUrl\<close> panics in a goroutine. The deferred \<open>wg.Done\<close> still runs, and
    the run-time system then ends the process, since nothing recovers the panic.
  \<^item> \<open>return\<close>: the loop is over and \<open>wg.Wait\<close> finds no goroutine left, so \<open>Gather\<close>
    returns nil.
  The process does not end at the very moment of a panic: the other goroutines and
  \<open>Gather\<close> itself may go on for a while, so every state in which \<open>panicked\<close> is set
  may be the last one of the process.
\<close>

inductive step :: "'tls env \<Rightarrow> 'tls Nginx \<Rightarrow> cycle \<Rightarrow> cycle \<Rightarrow> bool" for env n where
  launch:
    "pending s = u # us \<Longrightarrow> parse_address env u (accum s) = (addr, acc1) \<Longrightarrow>
     step env n s
       (s\<lparr>pending := us, running := running s @ [addr], accum := acc1,
          launched := launched s @ [addr]\<rparr>)"
| finish:
    "i < length (running s) \<Longrightarrow>
     gatherUrl env n (running s ! i) (accum s) = (Returns err, acc2) \<Longrightarrow>
     step env n s
       (s\<lparr>running := take i (running s) @ drop (Suc i) (running s),
          accum := AddError err acc2\<rparr>)"
| panic:
    "i < length (running s) \<Longrightarrow>
     gatherUrl env n (running s ! i) (accum s) = (Panics p, acc2) \<Longrightarrow>
     step env n s
       (s\<lparr>running := take i (running s) @ drop (Suc i) (running s),
          accum := acc2,
          panicked := Some (case panicked s of None \<Rightarrow> p | Some q \<Rightarrow> q)\<rparr>)"
| return:
    "pending s = [] \<Longrightarrow> running s = [] \<Longrightarrow> \<not> returned s \<Longrightarrow>
     step env n s (s\<lparr>returned := True\<rparr>)"

text \<open>
  The sequential head of \<open>Gather\<close>: \<open>Inl\<close> is the error that it returns when the
  client cannot be built, with the collector and the accumulator untouched; \<open>Inr\<close> is the
  collector as the client check leaves it, with the first state of the cycle over
  \<open>n.Urls\<close>. From there \<open>Gather\<close> returns nil in the states that \<open>return\<close> reaches.
\<close>

definition Gather ::
  "'tls env \<Rightarrow> 'tls Nginx \<Rightarrow> accumulator \<Rightarrow> error + ('tls Nginx \<times> cycle)" where
  "Gather env n acc =
     (case client n of
        None \<Rightarrow>
          (case createHttpClient (getTLS env) n of
             Inl err \<Rightarrow> Inl err
           | Inr (c, n') \<Rightarrow> Inr (n'\<lparr>client := Some c\<rparr>, start (Urls n') acc))
      | Some c \<Rightarrow> Inr (n, start (Urls n) acc))"

subsection \<open>The stub-status layout\<close>

text \<open>
  The bodies that the parser is written for, after the spec's three-line grammar: a
  label ending in a colon and the active count; a header line; the three counts
  accepts, handled and requests; three labelled counts reading, writing and waiting.
  Numbers are decimal numerals, padding is white space other than the newline, a
  separator is padding that is not empty, a label is a non-empty word of ASCII bytes
  that are no white space.
\<close>

definition digit_char :: "nat \<Rightarrow> char" where
  "digit_char d = char_of (48 + d)"

fun decimal :: "nat \<Rightarrow> string" where
  "decimal n = (if n < 10 then [digit_char n] else decimal (n div 10) @ [digit_char (n mod 10)])"

declare decimal.simps [simp del]

definition token_char :: "char \<Rightarrow> bool" where
  "token_char c \<longleftrightarrow> (of_char c :: nat) < 128 \<and> \<not> asciiSpace c"

definition padding :: "string \<Rightarrow> bool" where
  "padding s \<longleftrightarrow> (\<forall>c \<in> set s. asciiSpace c \<and> c \<noteq> CHR 0x0A)"

definition separator :: "string \<Rightarrow> bool" where
  "separator s \<longleftrightarrow> s \<noteq> [] \<and> padding s"

definition label :: "string \<Rightarrow> bool" where
  "label w \<longleftrightarrow> w \<noteq> [] \<and> (\<forall>c \<in> set w. token_char c)"

subsection \<open>Example inputs\<close>

text \<open>The body of the spec's example, a localhost endpoint, and collaborators that
  answer every request with a given status line and that body. On the two addresses
  used below, "http://localhost/status" and ":", \<open>Parse\<close> answers as \<open>url.Parse\<close> does:
  the second has no scheme, and the text of the error is
  \<open>parse ":": missing protocol scheme\<close>.\<close>

definition example_body :: string where
  "example_body =
     ''Active connections: 3'' @ [CHR 0x0A] @
     ''server accepts handled requests'' @ [CHR 0x0A] @
     '' 4 4 5'' @ [CHR 0x0A] @
     ''Reading: 1 Writing: 2 Waiting: 0'' @ [CHR 0x0A]"

definition example_body_unterminated :: string where
  "example_body_unterminated =
     ''Active connections: 3'' @ [CHR 0x0A] @
     ''server accepts handled requests'' @ [CHR 0x0A] @
     '' 4 4 5'' @ [CHR 0x0A] @
     ''Reading: 1 Writing: 2 Waiting: 0''"

definition example_body_short :: string where
  "example_body_short =
     ''Active connections: 3'' @ [CHR 0x0A] @
     ''server accepts handled requests'' @ [CHR 0x0A] @
     '' 4 4'' @ [CHR 0x0A] @
     ''Reading: 1 Writing: 2 Waiting: 0'' @ [CHR 0x0A]"

definition empty_acc :: accumulator where
  "empty_acc = \<lparr>metrics = [], errors = []\<rparr>"

definition example_url :: url where
  "example_url = \<lparr>Scheme = ''http'', Host = ''localhost'', url_String = ''http://localhost/status''\<rparr>"

definition example_env :: "int \<Rightarrow> string \<Rightarrow> unit env" where
  "example_env code status =
     \<lparr>getTLS = (\<lambda>_ _ _ _. Inr ()),
      Parse = (\<lambda>u. if u = ''http://localhost/status'' then Inr example_url
                    else Inl (''parse '' @ [CHR 0x22] @ u @ [CHR 0x22] @
                              '': missing protocol scheme'')),
      Get = (\<lambda>_ _. Inr \<lparr>StatusCode = code, Status = status,
                           ContentType = ''text/plain; charset=utf-8'', Body = example_body\<rparr>),
      gatherStatusUrl = (\<lambda>_ _ acc. (Returns None, acc))\<rparr>"

definition example_client :: "unit http_client" where
  "example_client = \<lparr>TLSClientConfig = (), Timeout = 5000000000\<rparr>"

definition example_nginx :: "string list \<Rightarrow> unit http_client option \<Rightarrow> unit Nginx" where
  "example_nginx us c =
     \<lparr>Urls = us, SSLCA = [], SSLCert = [], SSLKey = [], InsecureSkipVerify = False,
      client = c, ResponseTimeout = 200000000\<rparr>"

text \<open>A cycle over the addresses ":" and "http://localhost/status": the error that the
  loop records for the first, the state with both goroutines started, the state after
  the goroutine with the nil address has panicked, and the state in which the other
  goroutine has recorded its result and \<open>Gather\<close> has returned.\<close>

definition example_parse_error :: error where
  "example_parse_error =
     Errorf (''Unable to parse address '' @ [CHR 0x27] @ '':'' @ [CHR 0x27] @
       '': parse '' @ [CHR 0x22] @ '':'' @ [CHR 0x22] @ '': missing protocol scheme'')"

definition example_launched :: cycle where
  "example_launched =
     \<lparr>pending = [], running = [None, Some example_url],
      accum = \<lparr>metrics = [], errors = [example_parse_error]\<rparr>,
      launched = [None, Some example_url], panicked = None, returned = False\<rparr>"

definition example_dying :: cycle where
  "example_dying =
     \<lparr>pending = [], running = [Some example_url],
      accum = \<lparr>metrics = [], errors = [example_parse_error]\<rparr>,
      launched = [None, Some example_url], panicked = Some NilDereference, returned = False\<rparr>"

definition example_returned :: cycle where
  "example_returned =
     \<lparr>pending = [], running = [],
      accum = \<lparr>metrics =
                 [(''nginx'',
                   map_of [(''active'', 3), (''accepts'', 4), (''handled'', 4),
                           (''requests'', 5), (''reading'', 1), (''writing'', 2),
                           (''waiting'', 0)],
                   map_of [(''server'', ''localhost''), (''port'', ''80'')])],
               errors = [example_parse_error]\<rparr>,
      launched = [None, Some example_url], panicked = Some NilDereference, returned = True\<rparr>"

subsection \<open>Notions used in the proofs\<close>

text \<open>What a call of the parser may leave behind: one record with the seven fields
  after a nil return, the accumulator as it was after an error or a panic.\<close>

definition all_or_nothing :: "tags \<Rightarrow> accumulator \<Rightarrow> outcome \<times> accumulator \<Rightarrow> bool" where
  "all_or_nothing tags acc res \<longleftrightarrow>
     (\<exists>fs. res = (Returns None, acc\<lparr>metrics := metrics acc @ [(''nginx'', fs, tags)]\<rparr>) \<and>
           dom fs = {''active'', ''accepts'', ''handled'', ''requests'', ''reading'',
                     ''writing'', ''waiting''}) \<or>
     (\<exists>err. res = (Returns (Some err), acc)) \<or>
     (\<exists>p. res = (Panics p, acc))"

text \<open>The part of gatherStubStatusUrl from the comment "Reading/Writing/Waiting" on,
  with the four values parsed before it.\<close>

definition third_data_line ::
  "64 word \<Rightarrow> 64 word \<Rightarrow> 64 word \<Rightarrow> 64 word \<Rightarrow> string \<Rightarrow> tags \<Rightarrow> accumulator \<Rightarrow>
   outcome \<times> accumulator" where
  "third_data_line active accepts handled requests r4 tags acc =
     (case ReadString (CHR 0x0A) r4 of (res, r5) \<Rightarrow> orReturn res acc (\<lambda>line.
      let data = Fields line in
      orPanic (index data 1) acc (\<lambda>d1. orReturn (ParseUint d1) acc (\<lambda>reading.
      orPanic (index data 3) acc (\<lambda>d3. orReturn (ParseUint d3) acc (\<lambda>writing.
      orPanic (index data 5) acc (\<lambda>d5. orReturn (ParseUint d5) acc (\<lambda>waiting.
      let fields = map_of
            [(''active'', active), (''accepts'', accepts), (''handled'', handled),
             (''requests'', requests), (''reading'', reading), (''writing'', writing),
             (''waiting'', waiting)]
      in (Returns None, AddFields ''nginx'' fields tags acc)))))))))"

text \<open>Tokens, each followed by its separator.\<close>

fun spaced :: "(string \<times> string) list \<Rightarrow> string" where
  "spaced [] = []"
| "spaced ((t, b) # xs) = t @ b @ spaced xs"

section \<open>Auxiliary facts\<close>

subsection \<open>Stepping through the parser\<close>

lemma orReturn_Inr: "orReturn (Inr v) acc k = k v"
  by (simp add: orReturn_def)

lemma orReturn_Inl: "orReturn (Inl e) acc k = (Returns (Some e), acc)"
  by (simp add: orReturn_def)

lemma orPanic_Inr: "orPanic (Inr v) acc k = k v"
  by (simp add: orPanic_def)

lemma orPanic_Inl: "orPanic (Inl p) acc k = (Panics p, acc)"
  by (simp add: orPanic_def)

lemma orReturn_weak_cong: "r = r' \<Longrightarrow> orReturn r acc k = orReturn r' acc k"
  by simp

lemma orPanic_weak_cong: "r = r' \<Longrightarrow> orPanic r acc k = orPanic r' acc k"
  by simp

lemmas steps = orReturn_Inr orReturn_Inl orPanic_Inr orPanic_Inl

lemma aon_orReturn:
  assumes "\<And>v. all_or_nothing tags acc (k v)"
  shows "all_or_nothing tags acc (orReturn r acc k)"
proof (cases r)
  case (Inl e)
  then show ?thesis by (simp add: orReturn_Inl all_or_nothing_def)
next
  case (Inr v)
  with assms show ?thesis by (simp add: orReturn_Inr)
qed

lemma aon_orPanic:
  assumes "\<And>v. all_or_nothing tags acc (k v)"
  shows "all_or_nothing tags acc (orPanic r acc k)"
proof (cases r)
  case (Inl p)
  then show ?thesis by (simp add: orPanic_Inl all_or_nothing_def)
next
  case (Inr v)
  with assms show ?thesis by (simp add: orPanic_Inr)
qed

lemma aon_read:
  assumes "\<And>res r'. all_or_nothing tags acc (k res r')"
  shows "all_or_nothing tags acc (case ReadString d r of (res, r') \<Rightarrow> k res r')"
  using assms by (simp split: prod.split)

lemma aon_final:
  "all_or_nothing tags acc (Returns None, AddFields ''nginx''
     (map_of [(''active'', a), (''accepts'', b), (''handled'', c), (''requests'', d),
              (''reading'', e), (''writing'', f), (''waiting'', g)]) tags acc)"
  unfolding all_or_nothing_def AddFields_def
  by (rule disjI1, rule exI, rule conjI, rule refl) (simp add: dom_map_of_conv_image_fst)

lemma gatherStubStatusUrl_aon: "all_or_nothing tags acc (gatherStubStatusUrl r tags acc)"
  unfolding gatherStubStatusUrl_def Let_def
  by (intro aon_read aon_orReturn aon_orPanic aon_final)

subsection \<open>Evaluating the parser on a given body\<close>

lemmas eval =
  Fields_def space_width_def space2_def space3_def asciiSpace_def ParseUint_def cutoff_def maxUint64_def
  TrimSpace_def last_space_width_def trim_left.simps trim_right.simps index_def steps

lemmas examples =
  example_body_def empty_acc_def example_url_def example_env_def example_client_def
  example_nginx_def

subsection \<open>The poller does not consult the TLS loader\<close>

lemma gatherUrl_getTLS: "gatherUrl (env\<lparr>getTLS := load\<rparr>) n a acc = gatherUrl env n a acc"
  by (simp add: gatherUrl_def Let_def split: option.split sum.split)

subsection \<open>net.SplitHostPort on simple authorities\<close>

lemma last_index_append:
  "c \<notin> set p \<Longrightarrow> last_index c (h @ c # p) = Some (length h)"
proof -
  assume "c \<notin> set p"
  then have "takeWhile (\<lambda>x. x \<noteq> c) (rev p @ c # rev h) = rev p"
    by (auto simp: takeWhile_tail)
  then show ?thesis by (simp add: last_index_def)
qed

lemma SplitHostPort_no_colon:
  "CHR '':'' \<notin> set hp \<Longrightarrow> SplitHostPort hp = Inl MissingPort"
  by (simp add: SplitHostPort_def last_index_def)

lemma SplitHostPort_plain:
  assumes h: "CHR '':'' \<notin> set h" "CHR ''['' \<notin> set h" "CHR '']'' \<notin> set h"
    and p: "CHR '':'' \<notin> set p" "CHR ''['' \<notin> set p" "CHR '']'' \<notin> set p"
  shows "SplitHostPort (h @ '':'' @ p) = Inr (h, p)"
proof -
  have i: "last_index (CHR '':'') (h @ '':'' @ p) = Some (length h)"
    using p(1) by (simp add: last_index_append)
  have z: "(h @ '':'' @ p) ! 0 \<noteq> CHR ''[''"
    using h(2) by (cases h) auto
  show ?thesis
    using h p by (simp add: SplitHostPort_def i z Let_def del: append.simps nth_Cons_0) 
qed

lemma first_index_append:
  "c \<notin> set h \<Longrightarrow> first_index c (h @ c # p) = Some (length h)"
proof -
  assume "c \<notin> set h"
  then have "takeWhile (\<lambda>x. x \<noteq> c) h = h"
    by (auto simp: takeWhile_eq_all_conv)
  then show ?thesis by (simp add: first_index_def takeWhile_tail)
qed

lemma SplitHostPort_bracket:
  assumes h: "CHR ''['' \<notin> set h" "CHR '']'' \<notin> set h"
    and p: "CHR '':'' \<notin> set p" "CHR ''['' \<notin> set p" "CHR '']'' \<notin> set p"
  shows "SplitHostPort (''['' @ h @ '']:'' @ p) = Inr (h, p)"
proof -
  define hp where "hp = ''['' @ h @ '']:'' @ p"
  have i: "last_index (CHR '':'') hp = Some (length h + 2)"
    using last_index_append [of "CHR '':''" p "''['' @ h @ '']''"] p(1) by (simp add: hp_def)
  have e: "first_index (CHR '']'') hp = Some (length h + 1)"
    using first_index_append [of "CHR '']''" "''['' @ h" "'':'' @ p"] h(2) by (simp add: hp_def)
  have z: "hp ! 0 = CHR ''[''" and len: "length hp = length h + 3 + length p"
    and d1: "drop (Suc 0) hp = h @ '']:'' @ p"
    by (simp_all add: hp_def)
  have "hp = (''['' @ h @ '']'') @ ('':'' @ p)" and "length (''['' @ h @ '']'') = length h + 2"
    by (simp_all add: hp_def)
  then have "drop (length h + 2) hp = '':'' @ p"
    by (metis append_eq_conv_conj)
  then have d2: "drop (Suc (Suc (length h))) hp = '':'' @ p"
    by simp
  have "hp = (''['' @ h @ '']:'') @ p" and "length (''['' @ h @ '']:'') = length h + 3"
    by (simp_all add: hp_def)
  then have "drop (length h + 3) hp = p"
    by (metis append_eq_conv_conj)
  then have d3: "drop (Suc (Suc (Suc (length h)))) hp = p"
    by (simp add: numeral_3_eq_3)
  have "SplitHostPort hp = Inr (h, p)"
    using h p by (simp add: SplitHostPort_def i e z len d1 d2 d3 Let_def)
  then show ?thesis by (simp only: hp_def)
qed

subsection \<open>Reading lines\<close>

lemma ReadString_found:
  "d \<notin> set xs \<Longrightarrow> ReadString d (xs @ d # rest) = (Inr (xs @ [d]), rest)"
  by (induction xs) auto

lemma ReadString_missing:
  "d \<notin> set xs \<Longrightarrow> ReadString d xs = (Inl EOF, [])"
  by (induction xs) auto

lemma ReadString_Inr:
  "ReadString d s = (Inr line, r) \<Longrightarrow> \<exists>xs. line = xs @ [d] \<and> d \<notin> set xs \<and> s = xs @ d # r"
proof (induction s arbitrary: line)
  case Nil
  then show ?case by simp
next
  case (Cons c cs)
  show ?case
  proof (cases "c = d")
    case True
    with Cons.prems show ?thesis by auto
  next
    case False
    with Cons.prems obtain l where l: "ReadString d cs = (Inr l, r)" and line: "line = c # l"
      by (auto split: prod.splits sum.splits)
    from Cons.IH [OF l] obtain xs where "l = xs @ [d]" "d \<notin> set xs" "cs = xs @ d # r"
      by blast
    with False line have "line = (c # xs) @ [d] \<and> d \<notin> set (c # xs) \<and> c # cs = (c # xs) @ d # r"
      by simp
    then show ?thesis by blast
  qed
qed

lemma ReadString_Inl: "ReadString d s = (Inl e, r) \<Longrightarrow> e = EOF \<and> r = [] \<and> d \<notin> set s"
  by (induction s) (auto split: prod.splits sum.splits if_splits)

subsection \<open>White space\<close>

lemma space_width_ascii: "asciiSpace c \<Longrightarrow> space_width (c # cs) = 1"
  by (simp add: space_width_def)

lemma token_char_lead: "token_char c \<Longrightarrow> \<not> space2 c d \<and> \<not> space3 c d e"
  by (auto simp: token_char_def space2_def space3_def)

lemma space_width_token: "token_char c \<Longrightarrow> space_width (c # cs) = 0"
  using token_char_lead [of c]
  by (auto simp: space_width_def token_char_def split: list.split)

lemma fields_from_token:
  "\<forall>c \<in> set t. token_char c \<Longrightarrow> fields_from 0 cur (t @ s) = fields_from 0 (cur @ t) s"
  by (induction t arbitrary: cur) (simp_all add: space_width_token)

lemma fields_from_spaces:
  "\<forall>c \<in> set b. asciiSpace c \<Longrightarrow> fields_from 0 [] (b @ s) = fields_from 0 [] s"
  by (induction b) (simp_all add: space_width_ascii)

lemma fields_from_close:
  "\<forall>c \<in> set b. asciiSpace c \<Longrightarrow> b \<noteq> [] \<Longrightarrow> cur \<noteq> [] \<Longrightarrow>
   fields_from 0 cur (b @ s) = cur # fields_from 0 [] s"
  by (cases b) (simp_all add: space_width_ascii fields_from_spaces)


subsection \<open>Trimming\<close>

lemma trim_left_spaces: "\<forall>c \<in> set b. asciiSpace c \<Longrightarrow> trim_left (b @ s) = trim_left s"
proof (induction b)
  case Nil
  show ?case by simp
next
  case (Cons c b)
  then have "space_width (c # b @ s) = 1"
    by (simp add: space_width_ascii)
  then have "trim_left ((c # b) @ s) = trim_left (b @ s)"
    by (subst trim_left.simps) simp
  with Cons show ?case by simp
qed

lemma trim_left_token: "token_char c \<Longrightarrow> trim_left (c # s) = c # s"
  by (subst trim_left.simps) (simp add: space_width_token)

lemma space_width_2: "space_width t = 2 \<Longrightarrow> \<exists>a b r. t = a # b # r \<and> space2 a b"
  by (auto simp: space_width_def split: list.splits if_splits)

lemma space_width_3: "space_width t = 3 \<Longrightarrow> \<exists>a b c r. t = a # b # c # r \<and> space3 a b c"
  by (auto simp: space_width_def split: list.splits if_splits)

lemma asciiSpace_ascii: "asciiSpace c \<Longrightarrow> (of_char c :: nat) < 128"
  unfolding asciiSpace_def by (elim disjE) simp_all

lemma space2_high: "space2 a b \<Longrightarrow> 128 \<le> (of_char b :: nat)"
  unfolding space2_def by (elim conjE disjE) simp_all

lemma space3_high: "space3 a b c \<Longrightarrow> 128 \<le> (of_char c :: nat)"
  unfolding space3_def by (elim conjE disjE) simp_all

lemma space2_tail: "space2 a b \<Longrightarrow> \<not> token_char b"
  using space2_high [of a b] by (auto simp: token_char_def)

lemma space3_tail: "space3 a b c \<Longrightarrow> \<not> token_char c"
  using space3_high [of a b c] by (auto simp: token_char_def)

lemma last_space_width_token: "token_char c \<Longrightarrow> last_space_width (s @ [c]) = 0"
proof -
  assume c: "token_char c"
  let ?t = "s @ [c]"
  have one: "space_width (drop (length ?t - 1) ?t) \<noteq> 1"
    using c by (simp add: space_width_token)
  have two: "space_width (drop (length ?t - 2) ?t) \<noteq> 2" if "2 \<le> length ?t"
  proof
    assume "space_width (drop (length ?t - 2) ?t) = 2"
    then obtain a b r where d: "drop (length ?t - 2) ?t = a # b # r" and sp: "space2 a b"
      using space_width_2 by blast
    from that have "length (drop (length ?t - 2) ?t) = 2" by simp
    with d have "r = []" by simp
    with d have "last (drop (length ?t - 2) ?t) = b" by simp
    moreover have "last (drop (length ?t - 2) ?t) = c"
      using that by (simp add: last_drop)
    ultimately have "b = c" by simp
    with sp c show False by (simp add: space2_tail)
  qed
  have three: "space_width (drop (length ?t - 3) ?t) \<noteq> 3" if "3 \<le> length ?t"
  proof
    assume "space_width (drop (length ?t - 3) ?t) = 3"
    then obtain a b e r where d: "drop (length ?t - 3) ?t = a # b # e # r" and sp: "space3 a b e"
      using space_width_3 by blast
    from that have "length (drop (length ?t - 3) ?t) = 3" by simp
    with d have "r = []" by simp
    with d have "last (drop (length ?t - 3) ?t) = e" by simp
    moreover have "last (drop (length ?t - 3) ?t) = c"
      using that by (simp add: last_drop)
    ultimately have "e = c" by simp
    with sp c show False by (simp add: space3_tail)
  qed
  from one two three show ?thesis
    unfolding last_space_width_def by presburger
qed

lemma last_space_width_ascii: "asciiSpace c \<Longrightarrow> last_space_width (s @ [c]) = 1"
  by (simp add: last_space_width_def space_width_ascii)

lemma trim_right_token: "token_char c \<Longrightarrow> trim_right (s @ [c]) = s @ [c]"
  by (subst trim_right.simps) (simp add: last_space_width_token)

lemma trim_right_spaces: "\<forall>c \<in> set b. asciiSpace c \<Longrightarrow> trim_right (s @ b) = trim_right s"
proof (induction b rule: rev_induct)
  case Nil
  show ?case by simp
next
  case (snoc c b)
  then have "asciiSpace c" by simp
  then have "last_space_width ((s @ b) @ [c]) = 1"
    by (rule last_space_width_ascii)
  then have "trim_right ((s @ b) @ [c]) = trim_right (s @ b)"
    by (subst trim_right.simps) simp
  with snoc show ?case by simp
qed

lemma TrimSpace_token:
  assumes "\<forall>c \<in> set b1. asciiSpace c" "\<forall>c \<in> set b2. asciiSpace c"
    and "t \<noteq> []" "\<forall>c \<in> set t. token_char c"
  shows "TrimSpace (b1 @ t @ b2) = t"
proof -
  from assms(3) obtain c cs where t: "t = c # cs" by (cases t) auto
  from assms(3) obtain ds d where t': "t = ds @ [d]" by (cases t rule: rev_cases) auto
  have "trim_left (b1 @ t @ b2) = t @ b2"
    using assms(1,4) by (simp add: trim_left_spaces t trim_left_token)
  moreover have "trim_right (t @ b2) = trim_right t"
    using assms(2) by (rule trim_right_spaces)
  moreover have "trim_right t = t"
    using assms(4) trim_right_token [of d ds] by (simp add: t')
  ultimately show ?thesis by (simp add: TrimSpace_def)
qed


subsection \<open>Decimal numerals\<close>

lemma of_char_digit_char: "d < 10 \<Longrightarrow> (of_char (digit_char d) :: nat) = 48 + d"
  by (simp add: digit_char_def)

lemma digit_char_eq: "(of_char c :: nat) = 48 + d \<Longrightarrow> digit_char d = c"
  unfolding digit_char_def by (metis char_of_char)

lemma token_char_digit_char: "d < 10 \<Longrightarrow> token_char (digit_char d)"
proof -
  assume d: "d < 10"
  then have v: "(of_char (digit_char d) :: nat) = 48 + d"
    by (rule of_char_digit_char)
  have "\<not> asciiSpace (digit_char d)"
  proof
    assume "asciiSpace (digit_char d)"
    then have "(of_char (digit_char d) :: nat) \<in> {9, 10, 11, 12, 13, 32}"
      unfolding asciiSpace_def by (elim disjE) simp_all
    with v show False by auto
  qed
  with v d show ?thesis by (simp add: token_char_def)
qed

lemma token_char_not_newline: "token_char c \<Longrightarrow> c \<noteq> CHR 0x0A"
  by (auto simp: token_char_def asciiSpace_def)

lemma decimal_not_Nil: "decimal n \<noteq> []"
  by (subst decimal.simps) simp

lemma decimal_chars: "c \<in> set (decimal n) \<Longrightarrow> \<exists>d < 10. c = digit_char d"
proof (induction n rule: decimal.induct)
  case (1 n)
  show ?case
  proof (cases "n < 10")
    case True
    with "1.prems" show ?thesis by (subst (asm) decimal.simps) auto
  next
    case False
    with "1.prems" have "c \<in> set (decimal (n div 10)) \<or> c = digit_char (n mod 10)"
      by (subst (asm) decimal.simps) auto
    then show ?thesis
    proof
      assume "c \<in> set (decimal (n div 10))"
      with "1.IH" False show ?thesis by simp
    next
      assume "c = digit_char (n mod 10)"
      moreover have "n mod 10 < 10" by simp
      ultimately show ?thesis by blast
    qed
  qed
qed

lemma decimal_token: "\<forall>c \<in> set (decimal n). token_char c"
  using decimal_chars token_char_digit_char by blast

lemma parse_digits_snoc:
  "parse_digits a (xs @ [c]) =
     (case parse_digits a xs of Inl e \<Rightarrow> Inl e | Inr v \<Rightarrow> parse_digits v [c])"
  by (induction xs arbitrary: a) (simp_all add: Let_def)

lemma parse_digits_digit:
  assumes "d < 10" and "v * 10 + d < 2 ^ 64"
  shows "parse_digits v [digit_char d] = Inr (v * 10 + d)"
proof -
  from assms(2) have "v < cutoff"
    by (simp add: cutoff_def maxUint64_def)
  moreover from assms(2) have "(v * 10 + d) mod 2 ^ 64 = v * 10 + d"
    by simp
  moreover from assms(2) have "\<not> v * 10 + d > maxUint64"
    by (simp add: maxUint64_def)
  ultimately show ?thesis
    using assms(1) by (simp add: of_char_digit_char Let_def)
qed

lemma parse_digits_decimal: "n < 2 ^ 64 \<Longrightarrow> parse_digits 0 (decimal n) = Inr n"
proof (induction n rule: decimal.induct)
  case (1 n)
  show ?case
  proof (cases "n < 10")
    case True
    then have "decimal n = [digit_char n]"
      by (subst decimal.simps) simp
    with True "1.prems" parse_digits_digit [of n 0] show ?thesis by simp
  next
    case False
    then have d: "decimal n = decimal (n div 10) @ [digit_char (n mod 10)]"
      by (subst decimal.simps) simp
    from "1.prems" have "n div 10 < 2 ^ 64" by simp
    with "1.IH" False have "parse_digits 0 (decimal (n div 10)) = Inr (n div 10)"
      by simp
    moreover have "parse_digits (n div 10) [digit_char (n mod 10)] = Inr (n div 10 * 10 + n mod 10)"
      using "1.prems" by (intro parse_digits_digit) simp_all
    ultimately show ?thesis
      by (simp add: d parse_digits_snoc)
  qed
qed

lemma ParseUint_decimal: "n < 2 ^ 64 \<Longrightarrow> ParseUint (decimal n) = Inr (of_nat n)"
  by (simp add: ParseUint_def decimal_not_Nil parse_digits_decimal)


subsection \<open>Splitting a line of tokens\<close>

lemma padding_spaces: "padding p \<Longrightarrow> \<forall>c \<in> set p. asciiSpace c"
  by (simp add: padding_def)

lemma padding_no_newline: "padding p \<Longrightarrow> CHR 0x0A \<notin> set p"
  by (auto simp: padding_def)

lemma tokens_no_newline: "\<forall>c \<in> set t. token_char c \<Longrightarrow> CHR 0x0A \<notin> set t"
  using token_char_not_newline by blast

lemma asciiSpace_newline: "asciiSpace (CHR 0x0A)"
  by (simp add: asciiSpace_def)

lemma fields_from_spaced:
  assumes "\<forall>(t, b) \<in> set xs. t \<noteq> [] \<and> (\<forall>c \<in> set t. token_char c) \<and>
                               b \<noteq> [] \<and> (\<forall>c \<in> set b. asciiSpace c)"
  shows "fields_from 0 [] (spaced xs) = map fst xs"
  using assms
proof (induction xs)
  case Nil
  show ?case by simp
next
  case (Cons x xs)
  obtain t b where x: "x = (t, b)" by (cases x)
  with Cons.prems have t: "t \<noteq> []" "\<forall>c \<in> set t. token_char c"
    and b: "b \<noteq> []" "\<forall>c \<in> set b. asciiSpace c" by auto
  have "fields_from 0 [] (t @ b @ spaced xs) = fields_from 0 t (b @ spaced xs)"
    using fields_from_token [OF t(2), of "[]"] by simp
  also have "\<dots> = t # fields_from 0 [] (spaced xs)"
    by (rule fields_from_close [OF b(2) b(1) t(1)])
  finally show ?case using Cons by (simp add: x)
qed

lemma Fields_spaced:
  assumes "\<forall>c \<in> set p. asciiSpace c"
    and "\<forall>(t, b) \<in> set xs. t \<noteq> [] \<and> (\<forall>c \<in> set t. token_char c) \<and>
                               b \<noteq> [] \<and> (\<forall>c \<in> set b. asciiSpace c)"
  shows "Fields (p @ spaced xs) = map fst xs"
  using assms by (simp add: Fields_def fields_from_spaces fields_from_spaced)


subsection \<open>The parser on a well-formed body\<close>

lemma first_data_lines:
  assumes body: "body = pre @ '':'' @ p1 @ decimal active @ p2 @ [CHR 0x0A] @
        hdr @ [CHR 0x0A] @
        p3 @ decimal accepts @ s1 @ decimal handled @ s2 @ decimal requests @ p4 @ [CHR 0x0A] @
        rest"
    and pre: "CHR '':'' \<notin> set pre" and hdr: "CHR 0x0A \<notin> set hdr"
    and p: "padding p1" "padding p2" "padding p3" "padding p4"
    and s: "separator s1" "separator s2"
    and n: "active < 2 ^ 64" "accepts < 2 ^ 64" "handled < 2 ^ 64" "requests < 2 ^ 64"
  shows "gatherStubStatusUrl body tags acc =
     third_data_line (of_nat active) (of_nat accepts) (of_nat handled) (of_nat requests)
       rest tags acc"
proof -
  let ?nl = "CHR 0x0A"
  define l1 where "l1 = p1 @ decimal active @ p2"
  define l2 where "l2 = p3 @ decimal accepts @ s1 @ decimal handled @ s2 @ decimal requests @ p4"
  define k3 where "k3 = l2 @ ?nl # rest"
  define k2 where "k2 = hdr @ ?nl # k3"
  define k1 where "k1 = l1 @ ?nl # k2"
  have b: "body = pre @ CHR '':'' # k1"
    by (simp add: body k1_def k2_def k3_def l1_def l2_def)
  have nl1: "?nl \<notin> set l1"
    using p(1,2) by (simp add: l1_def padding_no_newline tokens_no_newline decimal_token)
  have nl2: "?nl \<notin> set l2"
    using p(3,4) s
    by (simp add: l2_def separator_def padding_no_newline tokens_no_newline decimal_token)
  have r1: "ReadString (CHR '':'') body = (Inr (pre @ '':''), k1)"
    unfolding b using pre by (rule ReadString_found)
  have r2: "ReadString ?nl k1 = (Inr (l1 @ [?nl]), k2)"
    unfolding k1_def using nl1 by (rule ReadString_found)
  have r3: "ReadString ?nl k2 = (Inr (hdr @ [?nl]), k3)"
    unfolding k2_def using hdr by (rule ReadString_found)
  have r4: "ReadString ?nl k3 = (Inr (l2 @ [?nl]), rest)"
    unfolding k3_def using nl2 by (rule ReadString_found)
  have "TrimSpace (p1 @ decimal active @ (p2 @ [?nl])) = decimal active"
    using p(1,2) by (intro TrimSpace_token)
      (simp_all add: padding_spaces asciiSpace_newline decimal_not_Nil decimal_token)
  then have t: "TrimSpace (l1 @ [?nl]) = decimal active"
    by (simp add: l1_def)
  have "Fields (p3 @ spaced [(decimal accepts, s1), (decimal handled, s2),
        (decimal requests, p4 @ [?nl])]) =
      map fst [(decimal accepts, s1), (decimal handled, s2), (decimal requests, p4 @ [?nl])]"
    using p(3,4) s
    by (intro Fields_spaced)
      (auto simp: separator_def padding_def asciiSpace_newline decimal_not_Nil decimal_token)
  then have f: "Fields (l2 @ [?nl]) = [decimal accepts, decimal handled, decimal requests]"
    by (simp add: l2_def)
  note u = n [THEN ParseUint_decimal]
  show ?thesis
    unfolding gatherStubStatusUrl_def third_data_line_def
    by (simp add: r1 r2 r3 r4 t f u steps index_def
        cong: orReturn_weak_cong orPanic_weak_cong)
qed

lemma third_data_line_unterminated:
  "CHR 0x0A \<notin> set r4 \<Longrightarrow>
   third_data_line active accepts handled requests r4 tags acc = (Returns (Some EOF), acc)"
  by (simp add: third_data_line_def ReadString_missing steps)

lemma third_data_line_well_formed:
  assumes r4: "r4 = p5 @ w1 @ s3 @ decimal reading @ s4 @ w2 @ s5 @ decimal writing @ s6 @
        w3 @ s7 @ decimal waiting @ p6 @ [CHR 0x0A] @ rest"
    and p: "padding p5" "padding p6"
    and s: "separator s3" "separator s4" "separator s5" "separator s6" "separator s7"
    and w: "label w1" "label w2" "label w3"
    and n: "reading < 2 ^ 64" "writing < 2 ^ 64" "waiting < 2 ^ 64"
  shows "third_data_line active accepts handled requests r4 tags acc =
     (Returns None, AddFields ''nginx''
        (map_of [(''active'', active), (''accepts'', accepts), (''handled'', handled),
                 (''requests'', requests), (''reading'', of_nat reading),
                 (''writing'', of_nat writing), (''waiting'', of_nat waiting)]) tags acc)"
proof -
  let ?nl = "CHR 0x0A"
  define l3 where "l3 = p5 @ w1 @ s3 @ decimal reading @ s4 @ w2 @ s5 @ decimal writing @ s6 @
        w3 @ s7 @ decimal waiting @ p6"
  have b: "r4 = l3 @ ?nl # rest"
    by (simp add: r4 l3_def)
  have nl3: "?nl \<notin> set l3"
    using p s w
    by (simp add: l3_def separator_def label_def padding_no_newline tokens_no_newline
        decimal_token)
  have r5: "ReadString ?nl r4 = (Inr (l3 @ [?nl]), rest)"
    unfolding b using nl3 by (rule ReadString_found)
  let ?xs = "[(w1, s3), (decimal reading, s4), (w2, s5), (decimal writing, s6), (w3, s7),
        (decimal waiting, p6 @ [?nl])]"
  have "Fields (p5 @ spaced ?xs) = map fst ?xs"
    using p s w
    by (intro Fields_spaced)
      (auto simp: separator_def label_def padding_def asciiSpace_newline decimal_not_Nil
        decimal_token)
  then have f: "Fields (l3 @ [?nl]) =
      [w1, decimal reading, w2, decimal writing, w3, decimal waiting]"
    by (simp add: l3_def)
  note u = n [THEN ParseUint_decimal]
  show ?thesis
    unfolding third_data_line_def
    by (simp add: r5 f u steps index_def
        cong: orReturn_weak_cong orPanic_weak_cong)
qed

subsection \<open>What a nil return implies\<close>

lemma orReturn_nil:
  "orReturn r acc k = (Returns None, acc') \<Longrightarrow> \<exists>v. r = Inr v \<and> k v = (Returns None, acc')"
  by (cases r) (simp_all add: steps)

lemma orPanic_nil:
  "orPanic r acc k = (Returns None, acc') \<Longrightarrow> \<exists>v. r = Inr v \<and> k v = (Returns None, acc')"
  by (cases r) (simp_all add: steps)

lemma read_nil:
  assumes "(case ReadString d r of (res, r') \<Rightarrow> orReturn res acc (k r')) = (Returns None, acc')"
  shows "\<exists>xs r' . r = xs @ d # r' \<and> d \<notin> set xs \<and> k r' (xs @ [d]) = (Returns None, acc')"
proof -
  obtain res r' where rd: "ReadString d r = (res, r')" by (cases "ReadString d r")
  with assms have "orReturn res acc (k r') = (Returns None, acc')" by simp
  then obtain line where "res = Inr line" and k: "k r' line = (Returns None, acc')"
    using orReturn_nil by blast
  with rd have "ReadString d r = (Inr line, r')" by simp
  then obtain xs where "line = xs @ [d]" "d \<notin> set xs" "r = xs @ d # r'"
    using ReadString_Inr by blast
  with k show ?thesis by blast
qed

lemma success_lines:
  assumes "gatherStubStatusUrl r tags acc = (Returns None, acc')"
  shows "\<exists>pre l1 l2 l3 l4 rest.
     r = pre @ '':'' @ l1 @ [CHR 0x0A] @ l2 @ [CHR 0x0A] @ l3 @ [CHR 0x0A] @ l4 @ [CHR 0x0A] @ rest \<and>
     CHR '':'' \<notin> set pre \<and> CHR 0x0A \<notin> set l1 \<and> CHR 0x0A \<notin> set l2 \<and>
     CHR 0x0A \<notin> set l3 \<and> CHR 0x0A \<notin> set l4"
  apply (insert assms)
  apply (unfold gatherStubStatusUrl_def Let_def)
  apply (drule read_nil, elim exE conjE)
  apply (drule read_nil, elim exE conjE)
  apply (drule orReturn_nil, elim exE conjE)
  apply (drule read_nil, elim exE conjE)
  apply (drule read_nil, elim exE conjE)
  apply (drule orPanic_nil, elim exE conjE, drule orReturn_nil, elim exE conjE)
  apply (drule orPanic_nil, elim exE conjE, drule orReturn_nil, elim exE conjE)
  apply (drule orPanic_nil, elim exE conjE, drule orReturn_nil, elim exE conjE)
  apply (drule read_nil, elim exE conjE)
  apply (thin_tac "orPanic _ _ _ = _")
  apply (thin_tac "ParseUint _ = _")+
  apply (thin_tac "index _ _ = _")+
  apply force
  done

subsection \<open>The steps of a collection cycle\<close>

lemma gatherUrl_nil: "gatherUrl env n None acc = (Panics NilDereference, acc)"
  by (simp add: gatherUrl_def)

lemma parse_address_Inl:
  "Parse env u = Inl msg \<Longrightarrow>
   parse_address env u acc =
     (None, acc\<lparr>errors := errors acc @
        [Errorf (''Unable to parse address '' @ [CHR 0x27] @ u @ [CHR 0x27] @ '': '' @ msg)]\<rparr>)"
  by (simp add: parse_address_def AddError_def)

lemma parse_address_Inr: "Parse env u = Inr a \<Longrightarrow> parse_address env u acc = (Some a, acc)"
  by (simp add: parse_address_def)

lemma parse_address_metrics: "metrics (snd (parse_address env u acc)) = metrics acc"
  by (simp add: parse_address_def AddError_def split: sum.split)

lemma parse_address_arg: "fst (parse_address env u acc) = fst (parse_address env u acc')"
  by (simp add: parse_address_def split: sum.split)

lemma parse_address_getTLS:
  "parse_address (env\<lparr>getTLS := load\<rparr>) u acc = parse_address env u acc"
  by (simp add: parse_address_def)

lemma step_getTLS_imp:
  assumes "step env n s t"
  shows "step (env\<lparr>getTLS := load\<rparr>) n s t"
  using assms
proof cases
  case (launch u us addr acc1)
  then show ?thesis
    using step.launch [of s u us "env\<lparr>getTLS := load\<rparr>" addr acc1 n]
    by (simp add: parse_address_getTLS)
next
  case (finish i err acc2)
  then show ?thesis
    using step.finish [of i s "env\<lparr>getTLS := load\<rparr>" n err acc2]
    by (simp add: gatherUrl_getTLS)
next
  case (panic i p acc2)
  then show ?thesis
    using step.panic [of i s "env\<lparr>getTLS := load\<rparr>" n p acc2]
    by (simp add: gatherUrl_getTLS)
next
  case return
  then show ?thesis
    using step.return [of s "env\<lparr>getTLS := load\<rparr>" n] by simp
qed

lemma step_getTLS: "step (env\<lparr>getTLS := load\<rparr>) n = step env n"
proof (intro ext iffI)
  fix s t
  assume "step (env\<lparr>getTLS := load\<rparr>) n s t"
  from step_getTLS_imp [OF this, of "getTLS env"] show "step env n s t" by simp
next
  fix s t
  assume "step env n s t"
  then show "step (env\<lparr>getTLS := load\<rparr>) n s t" by (rule step_getTLS_imp)
qed


text \<open>The loop starts a goroutine for each address that it has passed, in order.\<close>

lemma launched_invariant:
  assumes "rtranclp (step env n) (start us acc) s"
  shows "launched s @ map (\<lambda>u. fst (parse_address env u a)) (pending s) =
         map (\<lambda>u. fst (parse_address env u a)) us"
  using assms
proof (induction rule: rtranclp_induct)
  case base
  show ?case by (simp add: start_def)
next
  case (step s t)
  from step.hyps(2) show ?case
  proof cases
    case (launch u us' addr acc1)
    then have "addr = fst (parse_address env u a)"
      using parse_address_arg [of env u "accum s" a] by simp
    with launch step.IH show ?thesis by simp
  next
    case (finish i err acc2)
    with step.IH show ?thesis by simp
  next
    case (panic i p acc2)
    with step.IH show ?thesis by simp
  next
    case return
    with step.IH show ?thesis by simp
  qed
qed

text \<open>Taking one goroutine out of the list keeps every other one.\<close>

lemma remove_keeps:
  assumes "x \<in> set xs" and "xs ! i \<noteq> x"
  shows "x \<in> set (take i xs @ drop (Suc i) xs)"
proof -
  from assms(1) obtain j where j: "j < length xs" "xs ! j = x"
    by (auto simp: in_set_conv_nth)
  with assms(2) have "j \<noteq> i" by auto
  then consider "j < i" | "i < j" by arith
  then show ?thesis
  proof cases
    case 1
    with j have "take i xs ! j = x" "j < length (take i xs)" by simp_all
    then have "x \<in> set (take i xs)" by (metis nth_mem)
    then show ?thesis by simp
  next
    case 2
    then obtain k where k: "j = Suc i + k" by (metis less_iff_Suc_add add_Suc)
    with j have "drop (Suc i) xs ! k = x" "k < length (drop (Suc i) xs)" by simp_all
    then have "x \<in> set (drop (Suc i) xs)" by (metis nth_mem)
    then show ?thesis by simp
  qed
qed

text \<open>With an address that does not parse, a cycle cannot end well: the goroutine with
  the nil address is still to be started, or is running, or has panicked.\<close>

lemma doomed_invariant:
  assumes "rtranclp (step env n) (start us acc) s"
    and "u \<in> set us" and "Parse env u = Inl msg"
  shows "((\<exists>v \<in> set (pending s). \<exists>m. Parse env v = Inl m) \<or> None \<in> set (running s) \<or>
          panicked s \<noteq> None) \<and>
         (returned s \<longrightarrow> panicked s \<noteq> None)"
  using assms(1)
proof (induction rule: rtranclp_induct)
  case base
  from assms(2,3) show ?case by (auto simp: start_def)
next
  case (step s t)
  from step.hyps(2) show ?case
  proof cases
    case (launch v vs addr acc1)
    show ?thesis
    proof (cases "Parse env v")
      case (Inl m)
      with launch have "addr = None" by (simp add: parse_address_def)
      with launch step.IH show ?thesis by simp
    next
      case (Inr a)
      with launch step.IH show ?thesis by auto
    qed
  next
    case (finish i err acc2)
    have "running s ! i \<noteq> None"
    proof
      assume "running s ! i = None"
      with finish(3) gatherUrl_nil [of env n "accum s"] show False by simp
    qed
    then have "None \<in> set (running s) \<Longrightarrow> None \<in> set (running t)"
      using finish remove_keeps [of None "running s" i] by simp
    with finish step.IH show ?thesis by auto
  next
    case (panic i p acc2)
    then show ?thesis by simp
  next
    case return
    with step.IH show ?thesis by simp
  qed
qed

text \<open>The loop may run to its end before any goroutine does.\<close>

lemma launch_all:
  "pending s = us \<Longrightarrow>
   rtranclp (step env n) s
     (s\<lparr>pending := [],
        running := running s @ map (\<lambda>u. fst (parse_address env u (accum s))) us,
        accum := foldl (\<lambda>a u. snd (parse_address env u a)) (accum s) us,
        launched := launched s @ map (\<lambda>u. fst (parse_address env u (accum s))) us\<rparr>)"
proof (induction us arbitrary: s)
  case Nil
  then have "s\<lparr>pending := [], running := running s @ [], accum := accum s,
      launched := launched s @ []\<rparr> = s" by simp
  then show ?case by simp
next
  case (Cons u us)
  let ?addr = "fst (parse_address env u (accum s))"
  let ?acc1 = "snd (parse_address env u (accum s))"
  let ?t = "s\<lparr>pending := us, running := running s @ [?addr], accum := ?acc1,
      launched := launched s @ [?addr]\<rparr>"
  have "step env n s ?t"
    using Cons.prems by (intro step.launch) simp_all
  moreover have "pending ?t = us" by simp
  note Cons.IH [OF this]
  moreover have "map (\<lambda>v. fst (parse_address env v ?acc1)) us =
      map (\<lambda>v. fst (parse_address env v (accum s))) us"
    using parse_address_arg [of env _ ?acc1 "accum s"] by simp
  ultimately show ?case
    by (simp add: converse_rtranclp_into_rtranclp)
qed

lemma launch_all_metrics:
  "metrics (foldl (\<lambda>a u. snd (parse_address env u a)) acc us) = metrics acc"
  by (induction us arbitrary: acc) (simp_all add: parse_address_metrics)

subsection \<open>The example cycle\<close>

lemma example_parse:
  "Parse (example_env code status) '':'' =
     Inl (''parse '' @ [CHR 0x22] @ '':'' @ [CHR 0x22] @ '': missing protocol scheme'')"
  "Parse (example_env code status) ''http://localhost/status'' = Inr example_url"
  by (simp_all add: example_env_def)

lemma example_launch_all:
  "rtranclp (step (example_env code status) n)
     (start ['':'', ''http://localhost/status''] empty_acc) example_launched"
  using launch_all [of "start ['':'', ''http://localhost/status''] empty_acc"
      "['':'', ''http://localhost/status'']" "example_env code status" n]
  by (simp add: start_def empty_acc_def example_launched_def example_parse_error_def
      parse_address_Inl [OF example_parse(1)] parse_address_Inr [OF example_parse(2)])

lemma gatherStubStatusUrl_example_body:
  "gatherStubStatusUrl example_body tags acc =
     (Returns None, AddFields ''nginx''
        (map_of [(''active'', 3), (''accepts'', 4), (''handled'', 4), (''requests'', 5),
                 (''reading'', 1), (''writing'', 2), (''waiting'', 0)]) tags acc)"
  by (simp add: gatherStubStatusUrl_def example_body_def eval
      cong: orReturn_weak_cong orPanic_weak_cong)

lemma getTags_example_url:
  "getTags example_url = map_of [(''server'', ''localhost''), (''port'', ''80'')]"
  by (simp add: getTags_def example_url_def SplitHostPort_no_colon)

lemma gatherUrl_example:
  "client n = Some c \<Longrightarrow>
   gatherUrl (example_env 200 ''200 OK'') n (Some example_url) acc =
     (Returns None, AddFields ''nginx''
        (map_of [(''active'', 3), (''accepts'', 4), (''handled'', 4), (''requests'', 5),
                 (''reading'', 1), (''writing'', 2), (''waiting'', 0)])
        (map_of [(''server'', ''localhost''), (''port'', ''80'')]) acc)"
  by (simp add: gatherUrl_def StatusOK_def example_env_def gatherStubStatusUrl_example_body
      getTags_example_url)

section \<open>Properties\<close>

subsection \<open>The timeout floor of the client factory\<close>

text \<open>
  C5. Whenever the TLS material loads, createHttpClient builds a client, and for every
  requested timeout t (a signed 64-bit nanosecond count) the client's timeout is five
  seconds when t is strictly below one second - zero and negative values included - and
  exactly t when t is at least one second. Requesting 200ms gives 5s; requesting 10s
  gives 10s.
\<close>

theorem createHttpClient_timeout:
  "load (SSLCert n) (SSLKey n) (SSLCA n) (InsecureSkipVerify n) = Inr cfg \<Longrightarrow>
   (\<exists>c n'. createHttpClient load n = Inr (c, n') \<and>
      TLSClientConfig c = cfg \<and>
      Timeout c = (if sint (ResponseTimeout n) < 1000000000
                   then 5000000000 else ResponseTimeout n))"
  by (simp add: createHttpClient_def Second_def Let_def word_sless_alt)

theorem createHttpClient_timeout_witness:
  "(\<exists>c n'. createHttpClient (\<lambda>_ _ _ _. Inr (0::nat))
        \<lparr>Urls = [], SSLCA = [], SSLCert = [], SSLKey = [], InsecureSkipVerify = False,
         client = None, ResponseTimeout = 200000000\<rparr> = Inr (c, n') \<and> Timeout c = 5000000000) \<and>
   (\<exists>c n'. createHttpClient (\<lambda>_ _ _ _. Inr (0::nat))
        \<lparr>Urls = [], SSLCA = [], SSLCert = [], SSLKey = [], InsecureSkipVerify = False,
         client = None, ResponseTimeout = 10000000000\<rparr> = Inr (c, n') \<and> Timeout c = 10000000000)"
  using createHttpClient_timeout [of "\<lambda>_ _ _ _. Inr (0::nat)"
      "\<lparr>Urls = [], SSLCA = [], SSLCert = [], SSLKey = [], InsecureSkipVerify = False,
        client = None, ResponseTimeout = 200000000\<rparr>" 0]
    createHttpClient_timeout [of "\<lambda>_ _ _ _. Inr (0::nat)"
      "\<lparr>Urls = [], SSLCA = [], SSLCert = [], SSLKey = [], InsecureSkipVerify = False,
        client = None, ResponseTimeout = 10000000000\<rparr>" 0]
  by auto

subsection \<open>The parser records all seven fields or nothing\<close>

text \<open>
  C7. The plain-text parse is all-or-nothing. Whatever the body, gatherStubStatusUrl
  ends in one of three ways: it returns nil and has appended exactly one record
  "nginx" whose field set has exactly the seven keys active, accepts, handled,
  requests, reading, writing and waiting; or it returns an error (end of stream before
  a required line is complete, a token that is no unsigned integer) and the
  accumulator is as it was; or it panics and the accumulator is as it was. AddFields is
  never reached on a failure path.
\<close>

theorem gatherStubStatusUrl_all_or_nothing:
  "(\<exists>fs. gatherStubStatusUrl r tags acc =
           (Returns None, acc\<lparr>metrics := metrics acc @ [(''nginx'', fs, tags)]\<rparr>) \<and>
         dom fs = {''active'', ''accepts'', ''handled'', ''requests'', ''reading'',
                   ''writing'', ''waiting''}) \<or>
   (\<exists>err. gatherStubStatusUrl r tags acc = (Returns (Some err), acc)) \<or>
   (\<exists>p. gatherStubStatusUrl r tags acc = (Panics p, acc))"
  using gatherStubStatusUrl_aon [of tags acc r] unfolding all_or_nothing_def .

subsection \<open>The status check of the response dispatcher\<close>

text \<open>
  C3, with the success class narrowed to the one code that the guard accepts. In
  gatherUrl, for every HTTP response whose status code is not exactly 200
  (http.StatusOK) - the other codes of the 2xx class, such as 201 and 204,
  included - processing of that endpoint fails with the error "<address> returned HTTP
  status <status>", the accumulator is as it was, and neither the content type nor the
  body is looked at. For a response with status code 200 the check passes and
  processing goes on with the primary content-type token (the part before the first
  semicolon): text/plain goes to the plain-text parser, application/json to the JSON
  decoder, anything else is an error naming the token.
\<close>

theorem gatherUrl_status:
  "client n = Some c \<Longrightarrow> Get env c (url_String a) = Inr resp \<Longrightarrow>
   (StatusCode resp \<noteq> 200 \<longrightarrow>
      gatherUrl env n (Some a) acc =
        (Returns (Some (Errorf (url_String a @ '' returned HTTP status '' @ Status resp))), acc)) \<and>
   (StatusCode resp = 200 \<longrightarrow>
      gatherUrl env n (Some a) acc =
        (if takeWhile (\<lambda>c. c \<noteq> CHR '';'') (ContentType resp) = ''text/plain''
         then gatherStubStatusUrl (Body resp) (getTags a) acc
         else if takeWhile (\<lambda>c. c \<noteq> CHR '';'') (ContentType resp) = ''application/json''
         then gatherStatusUrl env (Body resp) (getTags a) acc
         else (Returns (Some (Errorf (url_String a @ '' returned unexpected content type '' @
                 takeWhile (\<lambda>c. c \<noteq> CHR '';'') (ContentType resp)))), acc)))"
  by (simp add: gatherUrl_def StatusOK_def Let_def)

theorem gatherUrl_status_witness:
  "gatherUrl (example_env 500 ''500 Internal Server Error'')
     (example_nginx [] (Some example_client)) (Some example_url) empty_acc =
     (Returns (Some (Errorf
        ''http://localhost/status returned HTTP status 500 Internal Server Error'')),
      empty_acc) \<and>
   gatherUrl (example_env 200 ''200 OK'')
     (example_nginx [] (Some example_client)) (Some example_url) empty_acc =
     gatherStubStatusUrl example_body (getTags example_url) empty_acc"
proof -
  let ?n = "example_nginx [] (Some example_client)"
  have c: "client ?n = Some example_client"
    by (simp add: example_nginx_def)
  have g: "Get (example_env code status) example_client (url_String example_url) =
      Inr \<lparr>StatusCode = code, Status = status,
           ContentType = ''text/plain; charset=utf-8'', Body = example_body\<rparr>" for code status
    by (simp add: example_env_def)
  from gatherUrl_status [OF c g, of 500 "''500 Internal Server Error''" empty_acc]
    gatherUrl_status [OF c g, of 200 "''200 OK''" empty_acc]
  show ?thesis by (simp add: example_url_def)
qed

text \<open>With "every 2xx status code passes the check" the property fails: status 204 is
  of the 2xx class, and the endpoint is reported as failed, its well-formed body never
  parsed.\<close>

theorem gatherUrl_status_204_counterexample:
  "gatherUrl (example_env 204 ''204 No Content'')
     (example_nginx [] (Some example_client)) (Some example_url) empty_acc =
   (Returns (Some (Errorf ''http://localhost/status returned HTTP status 204 No Content'')),
    empty_acc)"
  by (simp add: gatherUrl_def StatusOK_def examples)

subsection \<open>The cached client\<close>

text \<open>
  C9. Once the client field of the collector is set, a call of Gather leaves the whole
  collector, the client with it, as it found it, whatever the TLS paths, the insecure
  flag and the timeout of the configuration say by then: Gather goes straight to the
  cycle over the addresses, in whose steps the collector is only read. Neither the
  call nor any step of the cycle depends on the TLS loader, so no client is built
  again.
\<close>

theorem Gather_reuses_client:
  "client n = Some c \<Longrightarrow>
     Gather env n acc = Inr (n, start (Urls n) acc) \<and>
     Gather (env\<lparr>getTLS := load\<rparr>) n acc = Gather env n acc \<and>
     step (env\<lparr>getTLS := load\<rparr>) n = step env n"
  by (simp add: Gather_def step_getTLS)

theorem Gather_reuses_client_witness:
  "client (example_nginx [] (Some example_client)) = Some example_client \<and>
   Gather (example_env 200 ''200 OK'') (example_nginx [] (Some example_client)) empty_acc =
     Inr (example_nginx [] (Some example_client), start [] empty_acc)"
  using Gather_reuses_client [of "example_nginx [] (Some example_client)" example_client
      "example_env 200 ''200 OK''" empty_acc]
  by (simp add: example_nginx_def)

subsection \<open>An address that does not parse\<close>

text \<open>
  C1. The spec asks that an address whose parsing fails gets its error recorded and no
  fetch dispatched. The loop of Gather records the parse error and then, having no
  continue, goes on to the go statement with the nil address all the same. In every
  state that a cycle over the addresses us can reach, under every interleaving of the
  loop and the goroutines, the goroutines started so far are those of the first
  addresses of us, one for each: for an address that url.Parse rejects the loop records
  the error "Unable to parse address ..." and starts a goroutine with the nil address,
  whose call gatherUrl panics on addr.String(); for an address that parses it starts
  the goroutine with the parsed URL. And the loop can always run to its end, where
  as many goroutines have been started as there are addresses.
\<close>

theorem loop_launches_every_address:
  assumes "rtranclp (step env n) (start us acc) s"
  shows "length (launched s) + length (pending s) = length us \<and>
     (\<forall>i < length (launched s).
        (\<forall>msg. Parse env (us ! i) = Inl msg \<longrightarrow>
           launched s ! i = None \<and>
           (\<forall>a. parse_address env (us ! i) a =
              (None, a\<lparr>errors := errors a @
                 [Errorf (''Unable to parse address '' @ [CHR 0x27] @ us ! i @ [CHR 0x27] @
                    '': '' @ msg)]\<rparr>)) \<and>
           (\<forall>a. gatherUrl env n (launched s ! i) a = (Panics NilDereference, a))) \<and>
        (\<forall>addr. Parse env (us ! i) = Inr addr \<longrightarrow> launched s ! i = Some addr)) \<and>
     (\<exists>t. rtranclp (step env n) s t \<and> pending t = [] \<and> length (launched t) = length us)"
proof (intro conjI allI impI)
  let ?f = "\<lambda>u. fst (parse_address env u acc)"
  have inv: "launched s @ map ?f (pending s) = map ?f us"
    using assms by (rule launched_invariant)
  then have "length (launched s @ map ?f (pending s)) = length (map ?f us)"
    by simp
  then show len: "length (launched s) + length (pending s) = length us"
    by simp
  have nth: "launched s ! i = ?f (us ! i)" if "i < length (launched s)" for i
  proof -
    from that len have "i < length us" by simp
    then have "map ?f us ! i = ?f (us ! i)" by simp
    moreover from that have "(launched s @ map ?f (pending s)) ! i = launched s ! i"
      by (simp add: nth_append)
    ultimately show ?thesis using inv by simp
  qed
  {
    fix i msg
    assume i: "i < length (launched s)" and m: "Parse env (us ! i) = Inl msg"
    from nth [OF i] m show none: "launched s ! i = None"
      by (simp add: parse_address_Inl)
    fix a
    from m show "parse_address env (us ! i) a =
        (None, a\<lparr>errors := errors a @
           [Errorf (''Unable to parse address '' @ [CHR 0x27] @ us ! i @ [CHR 0x27] @
              '': '' @ msg)]\<rparr>)"
      by (rule parse_address_Inl)
    from none show "gatherUrl env n (launched s ! i) a = (Panics NilDereference, a)"
      by (simp add: gatherUrl_nil)
  }
  {
    fix i addr
    assume i: "i < length (launched s)" and m: "Parse env (us ! i) = Inr addr"
    from nth [OF i] m show "launched s ! i = Some addr"
      by (simp add: parse_address_Inr)
  }
  let ?t = "s\<lparr>pending := [],
        running := running s @ map (\<lambda>u. fst (parse_address env u (accum s))) (pending s),
        accum := foldl (\<lambda>a u. snd (parse_address env u a)) (accum s) (pending s),
        launched := launched s @ map (\<lambda>u. fst (parse_address env u (accum s))) (pending s)\<rparr>"
  have "rtranclp (step env n) s ?t"
    by (rule launch_all) simp
  moreover have "pending ?t = []" by simp
  moreover from len have "length (launched ?t) = length us" by simp
  ultimately show "\<exists>t. rtranclp (step env n) s t \<and> pending t = [] \<and>
      length (launched t) = length us"
    by blast
qed


theorem loop_launches_every_address_witness:
  "rtranclp (step (example_env 200 ''200 OK'') (example_nginx [] (Some example_client)))
     (start ['':'', ''http://localhost/status''] empty_acc) example_launched \<and>
   launched example_launched = [None, Some example_url] \<and>
   gatherUrl (example_env 200 ''200 OK'') (example_nginx [] (Some example_client))
     (launched example_launched ! 0) empty_acc = (Panics NilDereference, empty_acc)"
proof -
  let ?env = "example_env 200 ''200 OK''"
  let ?n = "example_nginx [] (Some example_client)"
  have r: "rtranclp (step ?env ?n) (start ['':'', ''http://localhost/status''] empty_acc)
      example_launched"
    by (rule example_launch_all)
  have l: "launched example_launched = [None, Some example_url]"
    by (simp add: example_launched_def)
  have "\<forall>i < length (launched example_launched).
      \<forall>msg. Parse ?env (['':'', ''http://localhost/status''] ! i) = Inl msg \<longrightarrow>
        launched example_launched ! i = None \<and>
        (\<forall>a. gatherUrl ?env ?n (launched example_launched ! i) a = (Panics NilDereference, a))"
    using loop_launches_every_address [OF r] by blast
  from this [rule_format, of 0] example_parse(1) [of 200 "''200 OK''"]
  have "gatherUrl ?env ?n (launched example_launched ! 0) empty_acc =
      (Panics NilDereference, empty_acc)"
    by (simp add: l)
  with r l show ?thesis by blast
qed

subsection \<open>What becomes of a cycle with such an address\<close>

text \<open>
  C8. The spec asks that Gather returns nil whenever the client could be built, every
  other error going to the accumulator, so that a failing endpoint never keeps the
  results of the others from being recorded. When the client is there and one of the
  addresses does not parse, the goroutine started for it panics, and nothing
  recovers the panic. So in every interleaving Gather returns nil only after that
  panic, in a process that the run-time system is about to end; and there is an
  interleaving in which the panic comes while every other goroutine is still running
  and no result of any endpoint has been recorded. In the witness, over the addresses
  ":" and "http://localhost/status", the process may end in the state example_dying,
  with the record of the second endpoint missing, or Gather may still return nil in
  the state example_returned before the process ends.
\<close>

theorem Gather_with_unparsable_address:
  assumes "Gather env n acc = Inr (n', s0)"
    and "u \<in> set (Urls n')" and "Parse env u = Inl msg"
  shows "(\<forall>s. rtranclp (step env n') s0 s \<longrightarrow> returned s \<longrightarrow> panicked s \<noteq> None) \<and>
     (\<exists>s. rtranclp (step env n') s0 s \<and> panicked s = Some NilDereference \<and>
          \<not> returned s \<and> metrics (accum s) = metrics acc \<and>
          length (running s) + 1 = length (Urls n'))"
proof -
  have s0: "s0 = start (Urls n') acc"
    using assms(1)
    by (auto simp: Gather_def split: option.splits sum.splits prod.splits)
  have always: "\<forall>s. rtranclp (step env n') s0 s \<longrightarrow> returned s \<longrightarrow> panicked s \<noteq> None"
    using doomed_invariant [OF _ assms(2,3), of n' acc] unfolding s0 by blast
  let ?us = "Urls n'"
  let ?f = "\<lambda>v. fst (parse_address env v acc)"
  let ?l = "s0\<lparr>pending := [], running := running s0 @ map (\<lambda>v. fst (parse_address env v (accum s0))) ?us,
      accum := foldl (\<lambda>a v. snd (parse_address env v a)) (accum s0) ?us,
      launched := launched s0 @ map (\<lambda>v. fst (parse_address env v (accum s0))) ?us\<rparr>"
  have l: "rtranclp (step env n') s0 ?l"
    by (rule launch_all) (simp add: s0 start_def)
  have run: "running ?l = map ?f ?us" and acc_l: "metrics (accum ?l) = metrics acc"
    and pl: "panicked ?l = None" and rl: "\<not> returned ?l"
    by (simp_all add: s0 start_def launch_all_metrics)
  from assms(2) obtain i where i: "i < length ?us" "?us ! i = u"
    by (auto simp: in_set_conv_nth)
  with assms(3) have nil: "running ?l ! i = None"
    unfolding run by (simp add: parse_address_Inl)
  let ?p = "?l\<lparr>running := take i (running ?l) @ drop (Suc i) (running ?l),
      accum := accum ?l,
      panicked := Some (case panicked ?l of None \<Rightarrow> NilDereference | Some q \<Rightarrow> q)\<rparr>"
  have "step env n' ?l ?p"
  proof (rule step.panic)
    show "i < length (running ?l)" using i(1) unfolding run by simp
    show "gatherUrl env n' (running ?l ! i) (accum ?l) = (Panics NilDereference, accum ?l)"
      unfolding nil by (rule gatherUrl_nil)
  qed
  with l have "rtranclp (step env n') s0 ?p"
    by (rule rtranclp.rtrancl_into_rtrancl)
  moreover have "panicked ?p = Some NilDereference"
    using pl by simp
  moreover have "\<not> returned ?p" using rl by simp
  moreover have "metrics (accum ?p) = metrics acc" using acc_l by simp
  moreover have "length (running ?p) + 1 = length ?us"
    using i(1) run by simp
  ultimately have "\<exists>s. rtranclp (step env n') s0 s \<and> panicked s = Some NilDereference \<and>
      \<not> returned s \<and> metrics (accum s) = metrics acc \<and>
      length (running s) + 1 = length (Urls n')"
    by blast
  with always show ?thesis by blast
qed

theorem Gather_with_unparsable_address_witness:
  "Gather (example_env 200 ''200 OK'')
     (example_nginx ['':'', ''http://localhost/status''] None) empty_acc =
     Inr ((example_nginx ['':'', ''http://localhost/status''] (Some example_client))
            \<lparr>ResponseTimeout := 5000000000\<rparr>,
          start ['':'', ''http://localhost/status''] empty_acc) \<and>
   rtranclp (step (example_env 200 ''200 OK'')
       ((example_nginx ['':'', ''http://localhost/status''] (Some example_client))
          \<lparr>ResponseTimeout := 5000000000\<rparr>))
     (start ['':'', ''http://localhost/status''] empty_acc) example_dying \<and>
   metrics (accum example_dying) = [] \<and>
   rtranclp (step (example_env 200 ''200 OK'')
       ((example_nginx ['':'', ''http://localhost/status''] (Some example_client))
          \<lparr>ResponseTimeout := 5000000000\<rparr>))
     (start ['':'', ''http://localhost/status''] empty_acc) example_returned \<and>
   returned example_returned \<and> panicked example_returned \<noteq> None"
proof -
  let ?env = "example_env 200 ''200 OK''"
  let ?us = "['':'', ''http://localhost/status'']"
  let ?n = "example_nginx ?us None"
  let ?n' = "(example_nginx ?us (Some example_client))\<lparr>ResponseTimeout := 5000000000\<rparr>"
  let ?s0 = "start ?us empty_acc"
  have mk: "createHttpClient (getTLS ?env) ?n =
      Inr (example_client, ?n\<lparr>ResponseTimeout := 5000000000\<rparr>)"
    by (simp add: createHttpClient_def Second_def word_sless_alt examples)
  have cn: "client ?n = None"
    by (simp add: example_nginx_def)
  have n': "?n\<lparr>ResponseTimeout := 5000000000, client := Some example_client\<rparr> = ?n'"
    and un: "Urls (?n\<lparr>ResponseTimeout := 5000000000\<rparr>) = ?us"
    by (simp_all add: example_nginx_def)
  have g: "Gather ?env ?n empty_acc = Inr (?n', ?s0)"
    unfolding Gather_def cn mk by (simp add: n' un)
  have c: "client ?n' = Some example_client" and us: "Urls ?n' = ?us"
    by (simp_all add: example_nginx_def)
  have l: "rtranclp (step ?env ?n') ?s0 example_launched"
    by (rule example_launch_all)
  have "step ?env ?n' example_launched
      (example_launched\<lparr>running := take 0 (running example_launched) @
           drop (Suc 0) (running example_launched),
         accum := accum example_launched,
         panicked := Some (case panicked example_launched of
                             None \<Rightarrow> NilDereference | Some q \<Rightarrow> q)\<rparr>)"
    by (rule step.panic) (simp_all add: example_launched_def gatherUrl_nil)
  then have "step ?env ?n' example_launched example_dying"
    by (simp add: example_launched_def example_dying_def)
  with l have d: "rtranclp (step ?env ?n') ?s0 example_dying"
    by (rule rtranclp.rtrancl_into_rtrancl)
  have "step ?env ?n' example_dying
      (example_dying\<lparr>running := take 0 (running example_dying) @
           drop (Suc 0) (running example_dying),
         accum := AddError None (AddFields ''nginx''
           (map_of [(''active'', 3), (''accepts'', 4), (''handled'', 4), (''requests'', 5),
                    (''reading'', 1), (''writing'', 2), (''waiting'', 0)])
           (map_of [(''server'', ''localhost''), (''port'', ''80'')]) (accum example_dying))\<rparr>)"
    by (rule step.finish) (simp_all add: example_dying_def gatherUrl_example [OF c])
  with d have f: "rtranclp (step ?env ?n') ?s0
      (example_dying\<lparr>running := [],
         accum := AddFields ''nginx''
           (map_of [(''active'', 3), (''accepts'', 4), (''handled'', 4), (''requests'', 5),
                    (''reading'', 1), (''writing'', 2), (''waiting'', 0)])
           (map_of [(''server'', ''localhost''), (''port'', ''80'')]) (accum example_dying)\<rparr>)"
    (is "rtranclp _ _ ?f")
    by (simp add: example_dying_def AddError_def rtranclp.rtrancl_into_rtrancl)
  have "step ?env ?n' ?f (?f\<lparr>returned := True\<rparr>)"
    by (rule step.return) (simp_all add: example_dying_def)
  then have "step ?env ?n' ?f example_returned"
    by (simp add: example_dying_def example_returned_def AddFields_def)
  with f have r: "rtranclp (step ?env ?n') ?s0 example_returned"
    by (rule rtranclp.rtrancl_into_rtrancl)
  have p: "Parse ?env '':'' =
      Inl (''parse '' @ [CHR 0x22] @ '':'' @ [CHR 0x22] @ '': missing protocol scheme'')"
    by (rule example_parse)
  have m: "'':'' \<in> set (Urls ?n')"
    by (simp add: us)
  have ret: "returned example_returned"
    by (simp add: example_returned_def)
  from Gather_with_unparsable_address [OF g m p] r ret
  have "panicked example_returned \<noteq> None" by blast
  moreover have "metrics (accum example_dying) = []"
    by (simp add: example_dying_def)
  ultimately show ?thesis using g d r ret by blast
qed

subsection \<open>The tags of an endpoint\<close>

text \<open>
  C6, with "an explicit port is present" read as the code decides it. For every URL,
  getTags returns exactly the two-entry map
  {server, port}. The server and the port are those of net.SplitHostPort whenever it
  accepts the authority: an authority host:port without brackets gives host and port,
  also when nothing follows the colon (the port is then empty and no scheme default
  stands in for it), and a bracketed authority [host]:port gives the host without its
  brackets. Whenever SplitHostPort rejects the authority, as it does when the
  authority holds no colon, the server is the whole authority and the port falls back
  to "80" for scheme http, "443" for scheme https and "" for any other scheme.
\<close>

theorem getTags_split:
  "dom (getTags addr) = {''server'', ''port''} \<and>
   (\<forall>host port. SplitHostPort (Host addr) = Inr (host, port) \<longrightarrow>
      getTags addr = map_of [(''server'', host), (''port'', port)]) \<and>
   (\<forall>err. SplitHostPort (Host addr) = Inl err \<longrightarrow>
      getTags addr = map_of [(''server'', Host addr),
        (''port'', if Scheme addr = ''http'' then ''80''
                   else if Scheme addr = ''https'' then ''443'' else [])]) \<and>
   (CHR '':'' \<notin> set (Host addr) \<longrightarrow>
      getTags addr = map_of [(''server'', Host addr),
        (''port'', if Scheme addr = ''http'' then ''80''
                   else if Scheme addr = ''https'' then ''443'' else [])]) \<and>
   (\<forall>h p. Host addr = h @ '':'' @ p \<and>
      CHR '':'' \<notin> set h \<and> CHR ''['' \<notin> set h \<and> CHR '']'' \<notin> set h \<and>
      CHR '':'' \<notin> set p \<and> CHR ''['' \<notin> set p \<and> CHR '']'' \<notin> set p \<longrightarrow>
      getTags addr = map_of [(''server'', h), (''port'', p)]) \<and>
   (\<forall>h p. Host addr = ''['' @ h @ '']:'' @ p \<and>
      CHR ''['' \<notin> set h \<and> CHR '']'' \<notin> set h \<and>
      CHR '':'' \<notin> set p \<and> CHR ''['' \<notin> set p \<and> CHR '']'' \<notin> set p \<longrightarrow>
      getTags addr = map_of [(''server'', h), (''port'', p)])"
proof (intro conjI allI impI)
  show "dom (getTags addr) = {''server'', ''port''}"
    by (cases "SplitHostPort (Host addr)") (auto simp: getTags_def split: if_splits)
next
  fix host port
  assume "SplitHostPort (Host addr) = Inr (host, port)"
  then show "getTags addr = map_of [(''server'', host), (''port'', port)]"
    by (simp add: getTags_def)
next
  fix err
  assume "SplitHostPort (Host addr) = Inl err"
  then show "getTags addr = map_of [(''server'', Host addr),
      (''port'', if Scheme addr = ''http'' then ''80''
                 else if Scheme addr = ''https'' then ''443'' else [])]"
    by (simp add: getTags_def)
next
  assume "CHR '':'' \<notin> set (Host addr)"
  then have "SplitHostPort (Host addr) = Inl MissingPort"
    by (rule SplitHostPort_no_colon)
  then show "getTags addr = map_of [(''server'', Host addr),
      (''port'', if Scheme addr = ''http'' then ''80''
                 else if Scheme addr = ''https'' then ''443'' else [])]"
    by (simp add: getTags_def)
next
  fix h p
  assume "Host addr = h @ '':'' @ p \<and>
      CHR '':'' \<notin> set h \<and> CHR ''['' \<notin> set h \<and> CHR '']'' \<notin> set h \<and>
      CHR '':'' \<notin> set p \<and> CHR ''['' \<notin> set p \<and> CHR '']'' \<notin> set p"
  then have "SplitHostPort (Host addr) = Inr (h, p)"
    using SplitHostPort_plain [of h p] by simp
  then show "getTags addr = map_of [(''server'', h), (''port'', p)]"
    by (simp add: getTags_def)
next
  fix h p
  assume "Host addr = ''['' @ h @ '']:'' @ p \<and>
      CHR ''['' \<notin> set h \<and> CHR '']'' \<notin> set h \<and>
      CHR '':'' \<notin> set p \<and> CHR ''['' \<notin> set p \<and> CHR '']'' \<notin> set p"
  then have "SplitHostPort (Host addr) = Inr (h, p)"
    using SplitHostPort_bracket [of h p] by simp
  then show "getTags addr = map_of [(''server'', h), (''port'', p)]"
    by (simp add: getTags_def)
qed

theorem getTags_split_witness:
  "getTags \<lparr>Scheme = ''http'', Host = ''localhost'', url_String = ''http://localhost/status''\<rparr> =
     map_of [(''server'', ''localhost''), (''port'', ''80'')] \<and>
   getTags \<lparr>Scheme = ''https'', Host = ''example.com:9443'',
            url_String = ''https://example.com:9443/x''\<rparr> =
     map_of [(''server'', ''example.com''), (''port'', ''9443'')] \<and>
   getTags \<lparr>Scheme = ''unix'', Host = ''socket'', url_String = ''unix://socket/x''\<rparr> =
     map_of [(''server'', ''socket''), (''port'', [])] \<and>
   getTags \<lparr>Scheme = ''http'', Host = ''[::1]:8080'', url_String = ''http://[::1]:8080/x''\<rparr> =
     map_of [(''server'', ''::1''), (''port'', ''8080'')]"
proof -
  let ?a = "\<lparr>Scheme = ''http'', Host = ''localhost'', url_String = ''http://localhost/status''\<rparr>"
  let ?b = "\<lparr>Scheme = ''https'', Host = ''example.com:9443'',
             url_String = ''https://example.com:9443/x''\<rparr>"
  let ?c = "\<lparr>Scheme = ''unix'', Host = ''socket'', url_String = ''unix://socket/x''\<rparr>"
  let ?d = "\<lparr>Scheme = ''http'', Host = ''[::1]:8080'', url_String = ''http://[::1]:8080/x''\<rparr>"
  from getTags_split [of ?a] have a: "getTags ?a = map_of [(''server'', ''localhost''), (''port'', ''80'')]"
    by simp
  from getTags_split [of ?c] have c: "getTags ?c = map_of [(''server'', ''socket''), (''port'', [])]"
    by simp
  from getTags_split [of ?b]
  have "\<forall>h p. Host ?b = h @ '':'' @ p \<and>
      CHR '':'' \<notin> set h \<and> CHR ''['' \<notin> set h \<and> CHR '']'' \<notin> set h \<and>
      CHR '':'' \<notin> set p \<and> CHR ''['' \<notin> set p \<and> CHR '']'' \<notin> set p \<longrightarrow>
      getTags ?b = map_of [(''server'', h), (''port'', p)]"
    by blast
  from this [rule_format, of "''example.com''" "''9443''"]
  have b: "getTags ?b = map_of [(''server'', ''example.com''), (''port'', ''9443'')]"
    by simp
  from getTags_split [of ?d]
  have "\<forall>h p. Host ?d = ''['' @ h @ '']:'' @ p \<and>
      CHR ''['' \<notin> set h \<and> CHR '']'' \<notin> set h \<and>
      CHR '':'' \<notin> set p \<and> CHR ''['' \<notin> set p \<and> CHR '']'' \<notin> set p \<longrightarrow>
      getTags ?d = map_of [(''server'', h), (''port'', p)]"
    by blast
  from this [rule_format, of "''::1''" "''8080''"]
  have d: "getTags ?d = map_of [(''server'', ''::1''), (''port'', ''8080'')]"
    by simp
  from a b c d show ?thesis by blast
qed

text \<open>With "split when a port is present, else the whole authority and the scheme
  default" the property fails. At http://example.com:/x the authority "example.com:"
  names no port, and the tags are not {server: "example.com:", port: "80"}: the server
  is "example.com" and the port is empty. At the authority "a:b:8080" under https a
  port is named, and it is not split off: SplitHostPort rejects the authority for its
  colons, so the server is "a:b:8080" and the port is "443".\<close>

theorem getTags_trailing_colon_counterexample:
  "getTags \<lparr>Scheme = ''http'', Host = ''example.com:'', url_String = ''http://example.com:/x''\<rparr> =
     map_of [(''server'', ''example.com''), (''port'', [])] \<and>
   getTags \<lparr>Scheme = ''http'', Host = ''example.com:'', url_String = ''http://example.com:/x''\<rparr> \<noteq>
     map_of [(''server'', ''example.com:''), (''port'', ''80'')] \<and>
   getTags \<lparr>Scheme = ''https'', Host = ''a:b:8080'', url_String = ''https://a:b:8080/x''\<rparr> =
     map_of [(''server'', ''a:b:8080''), (''port'', ''443'')]"
proof -
  let ?a = "\<lparr>Scheme = ''http'', Host = ''example.com:'', url_String = ''http://example.com:/x''\<rparr>"
  let ?b = "\<lparr>Scheme = ''https'', Host = ''a:b:8080'', url_String = ''https://a:b:8080/x''\<rparr>"
  have s: "SplitHostPort ''example.com:'' = Inr (''example.com'', [])"
    using SplitHostPort_plain [of "''example.com''" "[]"] by simp
  then have t: "getTags ?a = map_of [(''server'', ''example.com''), (''port'', [])]"
    by (simp add: getTags_def)
  have "getTags ?a ''port'' = Some []"
    by (simp add: t)
  moreover have "map_of [(''server'', ''example.com:''), (''port'', ''80'')] ''port'' = Some ''80''"
    by simp
  ultimately have u: "getTags ?a \<noteq> map_of [(''server'', ''example.com:''), (''port'', ''80'')]"
    by auto
  have "last_index (CHR '':'') (''a:b'' @ CHR '':'' # ''8080'') = Some (length ''a:b'')"
    by (rule last_index_append) simp
  then have "SplitHostPort ''a:b:8080'' = Inl TooManyColons"
    by (simp add: SplitHostPort_def)
  then have "getTags ?b = map_of [(''server'', ''a:b:8080''), (''port'', ''443'')]"
    by (simp add: getTags_def)
  with t u show ?thesis by blast
qed

subsection \<open>The parser on well-formed bodies\<close>

text \<open>
  C2. For every well-formed stub-status body - any text without a colon, a colon, the
  active count with padding around it, a newline; a header line; the counts accepts,
  handled and requests, separated by white space, with padding around them, a newline;
  three labels each followed by white space and its count reading, writing and waiting,
  a newline; all counts below 2^64 - gatherStubStatusUrl returns nil and appends exactly
  one record "nginx" whose field set is exactly the seven fields active, accepts,
  handled, requests, reading, writing and waiting with the values at these positions,
  under the tags given. For the body of the spec's example (the witness) the fields are
  active=3, accepts=4, handled=4, requests=5, reading=1, writing=2, waiting=0.
\<close>

theorem gatherStubStatusUrl_well_formed:
  assumes "body = pre @ '':'' @ p1 @ decimal active @ p2 @ [CHR 0x0A] @
        hdr @ [CHR 0x0A] @
        p3 @ decimal accepts @ s1 @ decimal handled @ s2 @ decimal requests @ p4 @ [CHR 0x0A] @
        p5 @ w1 @ s3 @ decimal reading @ s4 @ w2 @ s5 @ decimal writing @ s6 @
        w3 @ s7 @ decimal waiting @ p6 @ [CHR 0x0A] @ rest"
    and "CHR '':'' \<notin> set pre" and "CHR 0x0A \<notin> set hdr"
    and "padding p1" "padding p2" "padding p3" "padding p4" "padding p5" "padding p6"
    and "separator s1" "separator s2" "separator s3" "separator s4" "separator s5"
      "separator s6" "separator s7"
    and "label w1" "label w2" "label w3"
    and "active < 2 ^ 64" "accepts < 2 ^ 64" "handled < 2 ^ 64" "requests < 2 ^ 64"
      "reading < 2 ^ 64" "writing < 2 ^ 64" "waiting < 2 ^ 64"
  shows "gatherStubStatusUrl body tags acc =
     (Returns None,
      acc\<lparr>metrics := metrics acc @
        [(''nginx'',
          map_of [(''active'', of_nat active), (''accepts'', of_nat accepts),
                  (''handled'', of_nat handled), (''requests'', of_nat requests),
                  (''reading'', of_nat reading), (''writing'', of_nat writing),
                  (''waiting'', of_nat waiting)],
          tags)]\<rparr>)"
proof -
  define r4 where "r4 = p5 @ w1 @ s3 @ decimal reading @ s4 @ w2 @ s5 @ decimal writing @ s6 @
        w3 @ s7 @ decimal waiting @ p6 @ [CHR 0x0A] @ rest"
  have "body = pre @ '':'' @ p1 @ decimal active @ p2 @ [CHR 0x0A] @
        hdr @ [CHR 0x0A] @
        p3 @ decimal accepts @ s1 @ decimal handled @ s2 @ decimal requests @ p4 @ [CHR 0x0A] @
        r4"
    using assms(1) by (simp add: r4_def)
  then have "gatherStubStatusUrl body tags acc =
      third_data_line (of_nat active) (of_nat accepts) (of_nat handled) (of_nat requests)
        r4 tags acc"
    using assms by (intro first_data_lines)
  also have "\<dots> = (Returns None, AddFields ''nginx''
        (map_of [(''active'', of_nat active), (''accepts'', of_nat accepts),
                 (''handled'', of_nat handled), (''requests'', of_nat requests),
                 (''reading'', of_nat reading), (''writing'', of_nat writing),
                 (''waiting'', of_nat waiting)]) tags acc)"
    using r4_def assms by (intro third_data_line_well_formed)
  finally show ?thesis by (simp add: AddFields_def)
qed

theorem gatherStubStatusUrl_well_formed_witness:
  "gatherStubStatusUrl example_body Map.empty empty_acc =
     (Returns None,
      \<lparr>metrics =
         [(''nginx'',
           map_of [(''active'', 3), (''accepts'', 4), (''handled'', 4), (''requests'', 5),
                   (''reading'', 1), (''writing'', 2), (''waiting'', 0)],
           Map.empty)],
       errors = []\<rparr>)"
proof -
  have d: "decimal 0 = ''0''" "decimal 1 = ''1''" "decimal 2 = ''2''" "decimal 3 = ''3''"
    "decimal 4 = ''4''" "decimal 5 = ''5''"
    by (simp_all add: decimal.simps digit_char_eq)
  from d(2) have d1: "decimal (Suc 0) = ''1''" by simp
  have p: "padding []" "padding '' ''" and s: "separator '' ''"
    and w: "label ''Reading:''" "label ''Writing:''" "label ''Waiting:''"
    by (simp_all add: padding_def separator_def label_def token_char_def asciiSpace_def)
  have "gatherStubStatusUrl example_body Map.empty empty_acc =
     (Returns None,
      empty_acc\<lparr>metrics := metrics empty_acc @
        [(''nginx'',
          map_of [(''active'', of_nat 3), (''accepts'', of_nat 4),
                  (''handled'', of_nat 4), (''requests'', of_nat 5),
                  (''reading'', of_nat 1), (''writing'', of_nat 2),
                  (''waiting'', of_nat 0)],
          Map.empty)]\<rparr>)"
    by (rule gatherStubStatusUrl_well_formed
        [where pre = "''Active connections''" and ?p1.0 = "'' ''" and ?p2.0 = "[]"
          and hdr = "''server accepts handled requests''"
          and ?p3.0 = "'' ''" and ?s1.0 = "'' ''" and ?s2.0 = "'' ''" and ?p4.0 = "[]"
          and ?p5.0 = "[]" and ?w1.0 = "''Reading:''" and ?s3.0 = "'' ''" and ?s4.0 = "'' ''"
          and ?w2.0 = "''Writing:''" and ?s5.0 = "'' ''" and ?s6.0 = "'' ''"
          and ?w3.0 = "''Waiting:''" and ?s7.0 = "'' ''" and ?p6.0 = "[]" and rest = "[]"])
      (simp_all add: example_body_def d d1 p s w)
  then show ?thesis by (simp add: empty_acc_def)
qed

subsection \<open>Every required line ends in a newline\<close>

text \<open>
  C10. Every line that the parser reads must end in a newline, the third data line
  included. If gatherStubStatusUrl returns nil, the body holds, after its first colon,
  four lines each closed by a newline. And a body that is well formed up to the
  second data line and then ends without a newline - whatever stands there, the
  complete third data line with its three values too - is rejected: the parser returns
  io.EOF and records nothing.
\<close>

theorem gatherStubStatusUrl_unterminated_line:
  "(gatherStubStatusUrl r tags acc = (Returns None, acc') \<longrightarrow>
      (\<exists>pre l1 l2 l3 l4 rest.
         r = pre @ '':'' @ l1 @ [CHR 0x0A] @ l2 @ [CHR 0x0A] @ l3 @ [CHR 0x0A] @ l4 @ [CHR 0x0A] @
             rest \<and>
         CHR '':'' \<notin> set pre \<and> CHR 0x0A \<notin> set l1 \<and> CHR 0x0A \<notin> set l2 \<and>
         CHR 0x0A \<notin> set l3 \<and> CHR 0x0A \<notin> set l4)) \<and>
   (r = pre @ '':'' @ p1 @ decimal active @ p2 @ [CHR 0x0A] @
        hdr @ [CHR 0x0A] @
        p3 @ decimal accepts @ s1 @ decimal handled @ s2 @ decimal requests @ p4 @ [CHR 0x0A] @
        last_line \<and>
    CHR '':'' \<notin> set pre \<and> CHR 0x0A \<notin> set hdr \<and>
    padding p1 \<and> padding p2 \<and> padding p3 \<and> padding p4 \<and> separator s1 \<and> separator s2 \<and>
    active < 2 ^ 64 \<and> accepts < 2 ^ 64 \<and> handled < 2 ^ 64 \<and> requests < 2 ^ 64 \<and>
    CHR 0x0A \<notin> set last_line \<longrightarrow>
      gatherStubStatusUrl r tags acc = (Returns (Some EOF), acc))"
proof (intro conjI impI)
  assume "gatherStubStatusUrl r tags acc = (Returns None, acc')"
  then show "\<exists>pre l1 l2 l3 l4 rest.
      r = pre @ '':'' @ l1 @ [CHR 0x0A] @ l2 @ [CHR 0x0A] @ l3 @ [CHR 0x0A] @ l4 @ [CHR 0x0A] @
          rest \<and>
      CHR '':'' \<notin> set pre \<and> CHR 0x0A \<notin> set l1 \<and> CHR 0x0A \<notin> set l2 \<and>
      CHR 0x0A \<notin> set l3 \<and> CHR 0x0A \<notin> set l4"
    by (rule success_lines)
next
  assume a: "r = pre @ '':'' @ p1 @ decimal active @ p2 @ [CHR 0x0A] @
        hdr @ [CHR 0x0A] @
        p3 @ decimal accepts @ s1 @ decimal handled @ s2 @ decimal requests @ p4 @ [CHR 0x0A] @
        last_line \<and>
    CHR '':'' \<notin> set pre \<and> CHR 0x0A \<notin> set hdr \<and>
    padding p1 \<and> padding p2 \<and> padding p3 \<and> padding p4 \<and> separator s1 \<and> separator s2 \<and>
    active < 2 ^ 64 \<and> accepts < 2 ^ 64 \<and> handled < 2 ^ 64 \<and> requests < 2 ^ 64 \<and>
    CHR 0x0A \<notin> set last_line"
  then have b: "r = pre @ '':'' @ p1 @ decimal active @ p2 @ [CHR 0x0A] @
        hdr @ [CHR 0x0A] @
        p3 @ decimal accepts @ s1 @ decimal handled @ s2 @ decimal requests @ p4 @ [CHR 0x0A] @
        last_line"
    and c: "CHR '':'' \<notin> set pre" "CHR 0x0A \<notin> set hdr"
      "padding p1" "padding p2" "padding p3" "padding p4" "separator s1" "separator s2"
      "active < 2 ^ 64" "accepts < 2 ^ 64" "handled < 2 ^ 64" "requests < 2 ^ 64"
    and l: "CHR 0x0A \<notin> set last_line"
    by blast+
  have "gatherStubStatusUrl r tags acc =
      third_data_line (of_nat active) (of_nat accepts) (of_nat handled) (of_nat requests)
        last_line tags acc"
    by (rule first_data_lines [OF b c])
  also have "\<dots> = (Returns (Some EOF), acc)"
    by (rule third_data_line_unterminated [OF l])
  finally show "gatherStubStatusUrl r tags acc = (Returns (Some EOF), acc)" .
qed

theorem gatherStubStatusUrl_unterminated_line_witness:
  "gatherStubStatusUrl example_body_unterminated Map.empty empty_acc =
     (Returns (Some EOF), empty_acc)"
proof -
  have d: "decimal 3 = ''3''" "decimal 4 = ''4''" "decimal 5 = ''5''"
    by (simp_all add: decimal.simps digit_char_eq)
  have p: "padding []" "padding '' ''" and s: "separator '' ''"
    by (simp_all add: padding_def separator_def asciiSpace_def)
  have "example_body_unterminated =
      ''Active connections'' @ '':'' @ '' '' @ decimal 3 @ [] @ [CHR 0x0A] @
      ''server accepts handled requests'' @ [CHR 0x0A] @
      '' '' @ decimal 4 @ '' '' @ decimal 4 @ '' '' @ decimal 5 @ [] @ [CHR 0x0A] @
      ''Reading: 1 Writing: 2 Waiting: 0'' \<and>
    CHR '':'' \<notin> set ''Active connections'' \<and>
    CHR 0x0A \<notin> set ''server accepts handled requests'' \<and>
    padding '' '' \<and> padding [] \<and> padding '' '' \<and> padding [] \<and>
    separator '' '' \<and> separator '' '' \<and>
    (3::nat) < 2 ^ 64 \<and> (4::nat) < 2 ^ 64 \<and> (4::nat) < 2 ^ 64 \<and> (5::nat) < 2 ^ 64 \<and>
    CHR 0x0A \<notin> set ''Reading: 1 Writing: 2 Waiting: 0''"
    by (simp add: example_body_unterminated_def d p s)
  with gatherStubStatusUrl_unterminated_line
    [THEN conjunct2, of example_body_unterminated "''Active connections''" "'' ''" 3 "[]"
      "''server accepts handled requests''" "'' ''" 4 "'' ''" 4 "'' ''" 5 "[]"
      "''Reading: 1 Writing: 2 Waiting: 0''" Map.empty empty_acc]
  show ?thesis by blast
qed

subsection \<open>A counts line with too few tokens\<close>

text \<open>
  C4. The spec asks that a second data line with fewer than three tokens ends the
  parse on its failure path, without a crash. The parser indexes data[0], data[1] and
  data[2] with no check of the length: for every body whose second data line splits
  into fewer than three tokens, no record is emitted and the parser does not return
  nil, but unless the active count or a token that is present fails to parse (an error
  return), the call ends in the run-time panic "index out of range" at the first
  missing token, which is no error return of the parser.
\<close>

theorem gatherStubStatusUrl_short_counts_line:
  assumes "r = pre @ '':'' @ l1 @ [CHR 0x0A] @ hdr @ [CHR 0x0A] @ l2 @ [CHR 0x0A] @ rest"
    and "CHR '':'' \<notin> set pre" "CHR 0x0A \<notin> set l1" "CHR 0x0A \<notin> set hdr"
      "CHR 0x0A \<notin> set l2"
    and "length (Fields (l2 @ [CHR 0x0A])) < 3"
  shows "((\<exists>err. gatherStubStatusUrl r tags acc = (Returns (Some err), acc)) \<or>
          gatherStubStatusUrl r tags acc =
            (Panics (IndexOutOfRange (length (Fields (l2 @ [CHR 0x0A])))
                                     (length (Fields (l2 @ [CHR 0x0A])))), acc)) \<and>
         ((\<exists>a. ParseUint (TrimSpace (l1 @ [CHR 0x0A])) = Inr a) \<and>
          (\<forall>t \<in> set (Fields (l2 @ [CHR 0x0A])). \<exists>v. ParseUint t = Inr v) \<longrightarrow>
          gatherStubStatusUrl r tags acc =
            (Panics (IndexOutOfRange (length (Fields (l2 @ [CHR 0x0A])))
                                     (length (Fields (l2 @ [CHR 0x0A])))), acc))"
proof -
  let ?nl = "CHR 0x0A"
  define data where "data = Fields (l2 @ [?nl])"
  define k3 where "k3 = l2 @ ?nl # rest"
  define k2 where "k2 = hdr @ ?nl # k3"
  define k1 where "k1 = l1 @ ?nl # k2"
  have b: "r = pre @ CHR '':'' # k1"
    by (simp add: assms(1) k1_def k2_def k3_def)
  have r1: "ReadString (CHR '':'') r = (Inr (pre @ '':''), k1)"
    unfolding b using assms(2) by (rule ReadString_found)
  have r2: "ReadString ?nl k1 = (Inr (l1 @ [?nl]), k2)"
    unfolding k1_def using assms(3) by (rule ReadString_found)
  have r3: "ReadString ?nl k2 = (Inr (hdr @ [?nl]), k3)"
    unfolding k2_def using assms(4) by (rule ReadString_found)
  have r4: "ReadString ?nl k3 = (Inr (l2 @ [?nl]), rest)"
    unfolding k3_def using assms(5) by (rule ReadString_found)
  note reads = r1 r2 r3 r4 data_def [symmetric]
  have short: "length data < 3"
    using assms(6) by (simp add: data_def)
  let ?res = "gatherStubStatusUrl r tags acc"
  let ?panic = "(Panics (IndexOutOfRange (length data) (length data)), acc)"
  have "((\<exists>err. ?res = (Returns (Some err), acc)) \<or> ?res = ?panic) \<and>
        ((\<exists>a. ParseUint (TrimSpace (l1 @ [?nl])) = Inr a) \<and>
         (\<forall>t \<in> set data. \<exists>v. ParseUint t = Inr v) \<longrightarrow> ?res = ?panic)"
  proof (cases "ParseUint (TrimSpace (l1 @ [?nl]))")
    case (Inl err)
    then have "?res = (Returns (Some err), acc)"
      unfolding gatherStubStatusUrl_def
      by (simp add: reads steps cong: orReturn_weak_cong orPanic_weak_cong)
    with Inl show ?thesis by simp
  next
    case active: (Inr a)
    show ?thesis
    proof (cases data)
      case Nil
      then have "?res = ?panic"
        unfolding gatherStubStatusUrl_def
        by (simp add: reads active steps index_def cong: orReturn_weak_cong orPanic_weak_cong)
      then show ?thesis by simp
    next
      case one: (Cons t0 ts)
      show ?thesis
      proof (cases "ParseUint t0")
        case (Inl err)
        then have "?res = (Returns (Some err), acc)"
          unfolding gatherStubStatusUrl_def
          by (simp add: reads active one steps index_def
              cong: orReturn_weak_cong orPanic_weak_cong)
        with Inl one show ?thesis by auto
      next
        case accepts: (Inr v0)
        show ?thesis
        proof (cases ts)
          case Nil
          with one have "?res = ?panic"
            unfolding gatherStubStatusUrl_def
            by (simp add: reads active accepts steps index_def
                cong: orReturn_weak_cong orPanic_weak_cong)
          then show ?thesis by simp
        next
          case two: (Cons t1 us)
          with one short have us: "us = []" by simp
          show ?thesis
          proof (cases "ParseUint t1")
            case (Inl err)
            then have "?res = (Returns (Some err), acc)"
              unfolding gatherStubStatusUrl_def
              by (simp add: reads active accepts one two us steps index_def
                  cong: orReturn_weak_cong orPanic_weak_cong)
            with Inl one two show ?thesis by auto
          next
            case handled: (Inr v1)
            have "?res = ?panic"
              unfolding gatherStubStatusUrl_def
              by (simp add: reads active accepts handled one two us steps index_def
                  cong: orReturn_weak_cong orPanic_weak_cong)
            then show ?thesis by simp
          qed
        qed
      qed
    qed
  qed
  then show ?thesis unfolding data_def .
qed

theorem gatherStubStatusUrl_short_counts_line_witness:
  "gatherStubStatusUrl example_body_short Map.empty empty_acc =
     (Panics (IndexOutOfRange 2 2), empty_acc)"
proof -
  let ?nl = "CHR 0x0A"
  have f: "Fields ('' 4 4'' @ [?nl]) = [''4'', ''4'']"
    by (simp add: eval)
  have t: "TrimSpace ('' 3'' @ [?nl]) = ''3''"
    by (simp add: eval)
  have u: "ParseUint ''3'' = Inr 3" "ParseUint ''4'' = Inr 4"
    by (simp_all add: eval)
  have b: "example_body_short =
      ''Active connections'' @ '':'' @ '' 3'' @ [?nl] @
      ''server accepts handled requests'' @ [?nl] @ '' 4 4'' @ [?nl] @
      (''Reading: 1 Writing: 2 Waiting: 0'' @ [?nl])"
    by (simp add: example_body_short_def)
  have "(\<exists>a. ParseUint (TrimSpace ('' 3'' @ [?nl])) = Inr a) \<and>
      (\<forall>t \<in> set (Fields ('' 4 4'' @ [?nl])). \<exists>v. ParseUint t = Inr v)"
    unfolding f t using u by simp
  with gatherStubStatusUrl_short_counts_line [OF b, THEN conjunct2, of Map.empty empty_acc]
  have "gatherStubStatusUrl example_body_short Map.empty empty_acc =
      (Panics (IndexOutOfRange (length (Fields ('' 4 4'' @ [?nl])))
                               (length (Fields ('' 4 4'' @ [?nl])))), empty_acc)"
    unfolding f by simp
  then show ?thesis unfolding f by simp
qed

subsection \<open>The only error that Gather returns\<close>

text \<open>
  Gather returns a non-nil error exactly when the collector has no client yet and
  createHttpClient fails, and the error returned is that of createHttpClient; the
  collector and the accumulator are then left as they were and no goroutine is
  started.
\<close>

theorem Gather_error_return:
  "(Gather env n acc = Inl err) =
     (client n = None \<and> createHttpClient (getTLS env) n = Inl err)"
  by (auto simp: Gather_def split: option.splits sum.splits prod.splits)

end
